(* ===== verification/Zurg_Prelude.thy ===== *)
theory Zurg_Prelude
  imports Main "HOL-Library.Word"
begin

text \<open>
  Shared vocabulary of the development: machine integer types, the \<open>grpc::Status\<close>
  values the code returns, the few string routines of the C++ standard library the code uses
  (decimal and hexadecimal printing, \<open>tolower\<close>, \<open>find\<close>), and generic facts on lists
  that several components need.
\<close>

section \<open>Collections of facts\<close>

named_theorems zurg_defs \<open>definitions of handlers that are unfolded step by step\<close>
named_theorems send_simps \<open>what sending a message leaves unchanged\<close>

section \<open>Machine integers\<close>

type_synonym u16 = "16 word"
type_synonym u32 = "32 word"
type_synonym u64 = "64 word"

text \<open>\<open>static_cast<std::int64_t>\<close> of an unsigned 64-bit value is its two's complement reading.\<close>

definition as_int64 :: "u64 \<Rightarrow> int" where
  "as_int64 w = (if uint w < 2 ^ 63 then uint w else uint w - 2 ^ 64)"

lemma as_int64_small: "uint w < 2 ^ 63 \<Longrightarrow> as_int64 w = uint w"
  by (simp add: as_int64_def)

lemma as_int64_large: "2 ^ 63 \<le> uint w \<Longrightarrow> as_int64 w < 0"
  using uint_lt2p [of w] by (simp add: as_int64_def)

section \<open>Status values\<close>

text \<open>The gRPC status codes the program constructs or inspects, with their documented numbers.\<close>

datatype StatusCode =
    OK | CANCELLED | UNKNOWN | INVALID_ARGUMENT | PERMISSION_DENIED
  | RESOURCE_EXHAUSTED | FAILED_PRECONDITION | UNIMPLEMENTED | INTERNAL | UNAVAILABLE

fun code_number :: "StatusCode \<Rightarrow> nat" where
  "code_number OK = 0"
| "code_number CANCELLED = 1"
| "code_number UNKNOWN = 2"
| "code_number INVALID_ARGUMENT = 3"
| "code_number PERMISSION_DENIED = 7"
| "code_number RESOURCE_EXHAUSTED = 8"
| "code_number FAILED_PRECONDITION = 9"
| "code_number UNIMPLEMENTED = 12"
| "code_number INTERNAL = 13"
| "code_number UNAVAILABLE = 14"

datatype Status = Status (error_code: StatusCode) (error_message: string)

abbreviation Status_OK :: Status where
  "Status_OK \<equiv> Status OK ''''"

definition status_ok :: "Status \<Rightarrow> bool" where
  "status_ok st \<longleftrightarrow> error_code st = OK"

lemma status_ok_simps [simp]: "status_ok (Status c m) \<longleftrightarrow> c = OK"
  by (simp add: status_ok_def)

section \<open>Decimal and hexadecimal printing\<close>

definition digit_char :: "nat \<Rightarrow> char" where
  "digit_char d = char_of (48 + d)"

definition char_digit :: "char \<Rightarrow> nat" where
  "char_digit c = of_char c - 48"

definition is_digit :: "char \<Rightarrow> bool" where
  "is_digit c \<longleftrightarrow> 48 \<le> (of_char c :: nat) \<and> (of_char c :: nat) \<le> 57"

text \<open>\<open>std::to_string\<close> on an unsigned value.\<close>

fun to_string :: "nat \<Rightarrow> string" where
  "to_string n = (if n < 10 then [digit_char n] else to_string (n div 10) @ [digit_char (n mod 10)])"

declare to_string.simps [simp del]

definition from_digits :: "string \<Rightarrow> nat" where
  "from_digits s = foldl (\<lambda>v c. v * 10 + char_digit c) 0 s"

lemma of_char_digit_char [simp]: "d < 10 \<Longrightarrow> (of_char (digit_char d) :: nat) = 48 + d"
  by (simp add: digit_char_def)

lemma digit_char_props [simp]:
  assumes "d < 10"
  shows "is_digit (digit_char d)" and "char_digit (digit_char d) = d"
  using assms by (simp_all add: is_digit_def char_digit_def)

lemma from_digits_snoc [simp]: "from_digits (s @ [c]) = from_digits s * 10 + char_digit c"
  by (simp add: from_digits_def)

lemma from_digits_to_string [simp]: "from_digits (to_string n) = n"
proof (induction n rule: to_string.induct)
  case (1 n)
  show ?case
  proof (cases "n < 10")
    case True
    then show ?thesis by (subst to_string.simps) (simp add: from_digits_def)
  next
    case False
    with "1.IH" have "from_digits (to_string (n div 10)) = n div 10" by simp
    with False show ?thesis by (subst to_string.simps) simp
  qed
qed

lemma to_string_inject [simp]: "to_string m = to_string n \<longleftrightarrow> m = n"
  by (metis from_digits_to_string)

lemma to_string_digits: "c \<in> set (to_string n) \<Longrightarrow> is_digit c"
proof (induction n rule: to_string.induct)
  case (1 n)
  show ?case
  proof (cases "n < 10")
    case True
    with "1.prems" show ?thesis by (simp add: to_string.simps [of n])
  next
    case False
    with "1.prems" have "c \<in> set (to_string (n div 10)) \<or> c = digit_char (n mod 10)"
      by (auto simp: to_string.simps [of n])
    with "1.IH" [OF False] show ?thesis by auto
  qed
qed

lemma to_string_not_Nil [simp]: "to_string n \<noteq> []"
  by (subst to_string.simps) simp

section \<open>Characters and substrings\<close>

text \<open>\<open>std::tolower\<close> on an \<open>unsigned char\<close> in the C locale.\<close>

definition tolower :: "char \<Rightarrow> char" where
  "tolower c = (if 65 \<le> (of_char c :: nat) \<and> (of_char c :: nat) \<le> 90
                then char_of ((of_char c :: nat) + 32) else c)"

lemma tolower_idem [simp]: "tolower (tolower c) = tolower c"
  by (auto simp: tolower_def)

text \<open>\<open>find(c, pos)\<close>: the first index at or after \<open>pos\<close> that holds \<open>c\<close>; \<open>None\<close> is \<open>npos\<close>.\<close>

fun find_from :: "char \<Rightarrow> nat \<Rightarrow> string \<Rightarrow> nat option" where
  "find_from c i [] = None"
| "find_from c i (x # xs) = (if x = c then Some i else find_from c (Suc i) xs)"

definition find_char :: "string \<Rightarrow> char \<Rightarrow> nat \<Rightarrow> nat option" where
  "find_char s c pos = find_from c pos (drop pos s)"

lemma find_from_append:
  "c \<notin> set xs \<Longrightarrow> find_from c i (xs @ c # ys) = Some (i + length xs)"
  by (induction xs arbitrary: i) auto

lemma find_from_None: "find_from c i xs = None \<longleftrightarrow> c \<notin> set xs"
  by (induction xs arbitrary: i) auto

lemma find_char_at:
  "c \<notin> set mid \<Longrightarrow> pos = length pre \<Longrightarrow> find_char (pre @ mid @ c # post) c pos = Some (pos + length mid)"
  by (simp add: find_char_def find_from_append)

text \<open>\<open>haystack.find(needle) != npos\<close>.\<close>

fun contains :: "string \<Rightarrow> string \<Rightarrow> bool" where
  "contains [] needle \<longleftrightarrow> needle = []"
| "contains (x # xs) needle \<longleftrightarrow> take (length needle) (x # xs) = needle \<or> contains xs needle"

lemma contains_iff: "contains s needle \<longleftrightarrow> (\<exists>pre post. s = pre @ needle @ post)"
proof (induction s)
  case Nil
  show ?case by auto
next
  case (Cons x xs)
  have A: "take (length needle) (x # xs) = needle \<longleftrightarrow> (\<exists>post. x # xs = needle @ post)"
    by (metis append_eq_conv_conj append_take_drop_id)
  have B: "(\<exists>pre post. x # xs = pre @ needle @ post) \<longleftrightarrow>
      (\<exists>post. x # xs = needle @ post) \<or> (\<exists>pre post. xs = pre @ needle @ post)"
    by (metis append_Cons append_Nil list.inject neq_Nil_conv)
  show ?case by (simp only: contains.simps A B Cons.IH)
qed

section \<open>Lists\<close>

lemma filter_remove1_count:
  "count_list (xs @ ys) x = count_list xs x + count_list ys x"
  by (induction xs) auto

lemma distinct_map_filter: "distinct (map f xs) \<Longrightarrow> distinct (map f (filter P xs))"
  by (induction xs) auto

section \<open>Message sinks\<close>

text \<open>
  What a component that only sends relies on: a message given to \<open>send\<close> is appended to what has
  been sent, and the provider's invariant survives. The provider is the stream client; every
  handler above it reasons through these laws.
\<close>

locale message_sink =
  fixes send :: "'m \<Rightarrow> 's \<Rightarrow> 's"
    and sent :: "'s \<Rightarrow> 'm list"
    and sink_inv :: "'s \<Rightarrow> bool"
  assumes sent_send: "sent (send m s) = sent s @ [m]"
    and inv_send: "sink_inv s \<Longrightarrow> sink_inv (send m s)"
begin

lemma sent_fold: "sent (fold send ms s) = sent s @ ms"
  by (induction ms arbitrary: s) (simp_all add: sent_send)

lemma inv_fold: "sink_inv s \<Longrightarrow> sink_inv (fold send ms s)"
  by (induction ms arbitrary: s) (simp_all add: inv_send)

end

end
