(* ===== verification/Ops_Proto.thy ===== *)
theory Ops_Proto
  imports Zurg_Prelude
begin

text \<open>
  The messages of the control protocol (\<open>third_party/os.proto\<close>) and the option structures the
  agent passes around. A \<open>oneof\<close> is a datatype, a message with several fields a record, an
  optional sub-message an \<open>option\<close>. Field names carry a prefix where two messages share one.
  Fields no line of the agent reads or writes (tenant, actor, the unused parts of
  \<open>ExecSpec\<close>) are left out.
\<close>

section \<open>Specifications sent by the server\<close>

record Timestamp =
  seconds :: int
  nanos :: int

record Duration =
  dur_seconds :: int
  dur_nanos :: int

record LogFilterSpec =
  start_time :: "Timestamp option"
  end_time :: "Timestamp option"
  level_in :: "string list"
  grep_contains :: string
  compress :: bool
  lf_max_output_bytes :: u64

datatype Direction = DIR_UNSPECIFIED | INGRESS | EGRESS | BOTH

text \<open>The \<open>filter\<close> oneof of \<open>PcapSpec\<close>. The agent rejects structured filters without reading them.\<close>

datatype PcapFilter = FILTER_NOT_SET | Bpf string | Structured

record PcapSpec =
  if_name :: string
  direction :: Direction
  pcap_filter :: PcapFilter
  duration :: "Duration option"
  packet_limit :: u64
  snaplen :: u32
  payload_trim_bytes :: u32
  promisc :: bool

record ExecSpec =
  cmd :: string
  ex_max_output_bytes :: u64

datatype OpSpec =
    SPEC_NOT_SET
  | LogFilterS LogFilterSpec
  | PcapS PcapSpec
  | ExecS ExecSpec

record StartOp =
  meta_op_id :: u32
  start_spec :: OpSpec

datatype ServerToAgent =
    MSG_NOT_SET
  | Start StartOp
  | Cancel u32
  | Shutdown bool
  | Ping string u64

section \<open>Results sent by the agent\<close>

record LogChunk =
  chunk_offset :: int
  chunk_data :: string

record LogFilterEof =
  total_size :: int
  total_lines :: int
  temp_file_path :: string
  eof_source_files :: "string list"

record PcapPacket =
  pkt_ts :: Timestamp
  orig_len :: u32
  pkt_data :: string

record PcapStats =
  received :: u64
  dropped :: u64
  if_dropped :: u64

datatype ExecChunk = Stdout string | Stderr string

record ExecExit =
  exit_code :: int
  exit_note :: string

record Capability =
  if_names :: "string list"
  supports_shell :: bool
  supports_promisc :: bool
  allowed_exec_cmds :: "string list"

record AgentHello =
  hello_agent_id :: string
  version :: string
  platform :: string
  caps :: Capability

datatype OpPayload = LogChunkP LogChunk | PcapPacketP PcapPacket | ExecChunkP ExecChunk

datatype OpTrailer = LogT LogFilterEof | PcapT PcapStats | ExecT ExecExit

datatype AgentToServer =
    Hello AgentHello
  | Pong string u64
  | Ack u32 bool string
  | Data u32 OpPayload
  | Eof u32 OpTrailer
  | Error u32 string string

text \<open>The trailer or error that ends an operation, as opposed to its data.\<close>

fun is_terminal_for :: "u32 \<Rightarrow> AgentToServer \<Rightarrow> bool" where
  "is_terminal_for i (Eof j _) \<longleftrightarrow> i = j"
| "is_terminal_for i (Error j _ _) \<longleftrightarrow> i = j"
| "is_terminal_for i _ \<longleftrightarrow> False"

fun is_data_for :: "u32 \<Rightarrow> AgentToServer \<Rightarrow> bool" where
  "is_data_for i (Data j _) \<longleftrightarrow> i = j"
| "is_data_for i _ \<longleftrightarrow> False"

fun is_accept_for :: "u32 \<Rightarrow> AgentToServer \<Rightarrow> bool" where
  "is_accept_for i (Ack j acc _) \<longleftrightarrow> i = j \<and> acc"
| "is_accept_for i _ \<longleftrightarrow> False"

definition terminals :: "u32 \<Rightarrow> AgentToServer list \<Rightarrow> nat" where
  "terminals i ms = length (filter (is_terminal_for i) ms)"

definition accepts :: "u32 \<Rightarrow> AgentToServer list \<Rightarrow> nat" where
  "accepts i ms = length (filter (is_accept_for i) ms)"

lemma terminals_simps [simp]:
  "terminals i [] = 0"
  "terminals i (m # ms) = (if is_terminal_for i m then Suc (terminals i ms) else terminals i ms)"
  "terminals i (xs @ ys) = terminals i xs + terminals i ys"
  by (simp_all add: terminals_def)

lemma accepts_simps [simp]:
  "accepts i [] = 0"
  "accepts i (m # ms) = (if is_accept_for i m then Suc (accepts i ms) else accepts i ms)"
  "accepts i (xs @ ys) = accepts i xs + accepts i ys"
  by (simp_all add: accepts_def)

section \<open>Local options\<close>

text \<open>\<open>zurg::log_ops::Options\<close> with its default member initialisers.\<close>

record LogOptions =
  log_root :: string
  temp_dir :: string
  chunk_size :: nat
  cleanup_temp_file :: bool
  base_path :: string
  include_rotations :: bool
  rotation_scan_depth :: u32
  output_basename :: string

definition default_LogOptions :: LogOptions where
  "default_LogOptions = \<lparr>log_root = '''', temp_dir = '''', chunk_size = 64 * 1024,
     cleanup_temp_file = True, base_path = '''', include_rotations = True,
     rotation_scan_depth = 2, output_basename = ''logfilter''\<rparr>"

text \<open>\<open>zurg::agent::FeatureToggles\<close> with its default member initialisers.\<close>

record FeatureToggles =
  enabled :: bool
  enable_log_filter :: bool
  enable_pcap :: bool
  enable_exec :: bool

definition default_FeatureToggles :: FeatureToggles where
  "default_FeatureToggles =
     \<lparr>enabled = True, enable_log_filter = True, enable_pcap = True, enable_exec = True\<rparr>"

end
