(* ===== verification/Stream_Client.thy ===== *)
theory Stream_Client
  imports Ops_Proto "HOL-Library.Sublist"
begin

text \<open>
  The bidirectional stream client (\<open>standalone/source/agent/control/control_stream_client.cpp\<close>):
  the ordered write queue, the gRPC reactor callbacks and the reconnect loop. gRPC itself is a
  library: what the client calls on a reactor and what the library reports back is the list
  \<open>io_log\<close>, in the order of the calls. The registered callbacks and the option functions are
  arguments, as they are \<open>std::function\<close> members in the code; they act on the whole state, of
  which this record is the first part.
\<close>

section \<open>State\<close>

type_synonym reactor_id = nat

datatype grpc_io =
    Connect reactor_id
  | StartCall reactor_id
  | StartRead reactor_id
  | StartWrite reactor_id AgentToServer
  | TryCancel reactor_id
  | WriteDone reactor_id bool
  | ReadDone reactor_id bool
  | Done reactor_id

text \<open>
  \<open>reactor\<close> is the pointer \<open>reactor_\<close> (\<open>None\<close> is \<open>nullptr\<close>); each loop iteration creates a new
  \<open>StreamReactor\<close>, numbered by \<open>next_reactor\<close>. \<open>enqueued\<close> records every message given to
  \<open>EnqueueWrite\<close>, which is what the \<open>on_send\<close> hook observes; \<open>slept\<close> the delays passed to
  \<open>sleep_fn\<close>; \<open>done_status\<close> the \<open>done_\<close>/\<open>status_\<close> pair of each reactor.
\<close>

record stream_client =
  s_running :: bool
  attempt :: nat
  pending_writes :: "AgentToServer list"
  current_write :: "AgentToServer option"
  write_in_flight :: bool
  reactor :: "reactor_id option"
  next_reactor :: reactor_id
  done_status :: "reactor_id \<Rightarrow> Status option"
  io_log :: "grpc_io list"
  enqueued :: "AgentToServer list"
  slept :: "int list"

record 's stream_options =
  should_run :: "('s \<Rightarrow> bool) option"
  backoff_fn :: "(nat \<Rightarrow> int) option"

record 's stream_callbacks =
  ready_callback :: "('s \<Rightarrow> 's) option"
  message_callback :: "(ServerToAgent \<Rightarrow> bool \<Rightarrow> 's \<Rightarrow> 's) option"
  stream_closed_callback :: "(Status \<Rightarrow> 's \<Rightarrow> 's) option"

type_synonym 'a sc = "'a stream_client_scheme"

definition log_io :: "grpc_io \<Rightarrow> 'a sc \<Rightarrow> 'a sc" where
  "log_io e s = s\<lparr>io_log := io_log s @ [e]\<rparr>"

text \<open>The object right after construction; \<open>more\<close> is the state of the owner.\<close>

definition new_stream_client :: "'a \<Rightarrow> 'a sc" where
  "new_stream_client x = \<lparr>s_running = False, attempt = 0, pending_writes = [], current_write = None,
     write_in_flight = False, reactor = None, next_reactor = 0, done_status = (\<lambda>_. None),
     io_log = [], enqueued = [], slept = [], \<dots> = x\<rparr>"

text \<open>The constructor replaces empty option functions by defaults.\<close>

definition ControlStreamClient_options :: "'s stream_options \<Rightarrow> 's stream_options" where
  "ControlStreamClient_options opts = \<lparr>
     should_run = (case should_run opts of None \<Rightarrow> Some (\<lambda>_. True) | Some f \<Rightarrow> Some f),
     backoff_fn = (case backoff_fn opts of None \<Rightarrow> Some (\<lambda>_. 0) | Some f \<Rightarrow> Some f)\<rparr>"

definition SetMessageCallback ::
  "(ServerToAgent \<Rightarrow> bool \<Rightarrow> 's \<Rightarrow> 's) option \<Rightarrow> 's stream_callbacks \<Rightarrow> 's stream_callbacks" where
  "SetMessageCallback cb cbs = cbs\<lparr>message_callback := cb\<rparr>"

definition SetReadyCallback :: "('s \<Rightarrow> 's) option \<Rightarrow> 's stream_callbacks \<Rightarrow> 's stream_callbacks" where
  "SetReadyCallback cb cbs = cbs\<lparr>ready_callback := cb\<rparr>"

definition SetStreamClosedCallback ::
  "(Status \<Rightarrow> 's \<Rightarrow> 's) option \<Rightarrow> 's stream_callbacks \<Rightarrow> 's stream_callbacks" where
  "SetStreamClosedCallback cb cbs = cbs\<lparr>stream_closed_callback := cb\<rparr>"

section \<open>The write queue\<close>

definition MaybeStartWriteLocked :: "'a sc \<Rightarrow> 'a sc" where
  "MaybeStartWriteLocked s =
     (if write_in_flight s then s
      else case pending_writes s of
        [] \<Rightarrow> s
      | m # ms \<Rightarrow>
          (case reactor s of
             None \<Rightarrow> s
           | Some r \<Rightarrow>
               log_io (StartWrite r m)
                 (s\<lparr>current_write := Some m, pending_writes := ms, write_in_flight := True\<rparr>)))"

definition EnqueueWrite :: "AgentToServer \<Rightarrow> 'a sc \<Rightarrow> 'a sc" where
  "EnqueueWrite msg s =
     MaybeStartWriteLocked
       (s\<lparr>enqueued := enqueued s @ [msg], pending_writes := pending_writes s @ [msg]\<rparr>)"

definition OnWriteFinished :: "bool \<Rightarrow> 'a sc \<Rightarrow> 'a sc" where
  "OnWriteFinished ok s =
     (let s1 = s\<lparr>write_in_flight := False, current_write := None\<rparr>;
          s2 = (if \<not> ok then s1\<lparr>pending_writes := []\<rparr> else s1)
      in MaybeStartWriteLocked s2)"

section \<open>Stream callbacks\<close>

definition OnStreamReady :: "'a sc stream_callbacks \<Rightarrow> reactor_id \<Rightarrow> 'a sc \<Rightarrow> 'a sc" where
  "OnStreamReady cbs r s =
     (let s1 = s\<lparr>reactor := Some r\<rparr>;
          s2 = (case ready_callback cbs of None \<Rightarrow> s1 | Some f \<Rightarrow> f s1)
      in MaybeStartWriteLocked s2)"

definition OnMessage ::
  "'a sc stream_callbacks \<Rightarrow> ServerToAgent \<Rightarrow> bool \<Rightarrow> 'a sc \<Rightarrow> 'a sc" where
  "OnMessage cbs msg ok s =
     (case message_callback cbs of None \<Rightarrow> s | Some f \<Rightarrow> f msg ok s)"

definition OnStreamClosed :: "'a sc stream_callbacks \<Rightarrow> Status \<Rightarrow> 'a sc \<Rightarrow> 'a sc" where
  "OnStreamClosed cbs status s =
     (let s1 = s\<lparr>write_in_flight := False, current_write := None, pending_writes := []\<rparr>;
          s2 = s1\<lparr>reactor := None\<rparr>
      in case stream_closed_callback cbs of None \<Rightarrow> s2 | Some f \<Rightarrow> f status s2)"

section \<open>The reactor\<close>

text \<open>\<open>StreamReactor::Start\<close>; the constructor's \<open>Connect\<close> is logged by \<open>Run_connect\<close>.\<close>

definition Reactor_Start :: "'a sc stream_callbacks \<Rightarrow> reactor_id \<Rightarrow> 'a sc \<Rightarrow> 'a sc" where
  "Reactor_Start cbs r s =
     log_io (StartRead r) (OnStreamReady cbs r (log_io (StartCall r) s))"

definition Reactor_Stop :: "reactor_id \<Rightarrow> 'a sc \<Rightarrow> 'a sc" where
  "Reactor_Stop r s = log_io (TryCancel r) s"

definition Reactor_OnReadDone ::
  "'a sc stream_callbacks \<Rightarrow> reactor_id \<Rightarrow> ServerToAgent \<Rightarrow> bool \<Rightarrow> 'a sc \<Rightarrow> 'a sc" where
  "Reactor_OnReadDone cbs r msg ok s =
     (let s1 = OnMessage cbs msg ok (log_io (ReadDone r ok) s)
      in if ok then log_io (StartRead r) s1 else s1)"

definition Reactor_OnWriteDone :: "reactor_id \<Rightarrow> bool \<Rightarrow> 'a sc \<Rightarrow> 'a sc" where
  "Reactor_OnWriteDone r ok s = OnWriteFinished ok (log_io (WriteDone r ok) s)"

definition Reactor_OnDone :: "'a sc stream_callbacks \<Rightarrow> reactor_id \<Rightarrow> Status \<Rightarrow> 'a sc \<Rightarrow> 'a sc" where
  "Reactor_OnDone cbs r status s =
     (let s1 = OnStreamClosed cbs status (log_io (Done r) s)
      in s1\<lparr>done_status := (done_status s1)(r := Some status)\<rparr>)"

text \<open>\<open>StreamReactor::Wait\<close> returns once \<open>done_\<close> is set; \<open>None\<close> stands for still waiting.\<close>

definition Reactor_Wait :: "reactor_id \<Rightarrow> 'a sc \<Rightarrow> Status option" where
  "Reactor_Wait r s = done_status s r"

section \<open>The reconnect loop\<close>

definition ShouldContinue :: "'a sc stream_options \<Rightarrow> 'a sc \<Rightarrow> bool" where
  "ShouldContinue opts s =
     (if \<not> s_running s then False
      else case should_run opts of None \<Rightarrow> True | Some f \<Rightarrow> f s)"

definition Run_begin :: "'a sc \<Rightarrow> 'a sc" where
  "Run_begin s = s\<lparr>s_running := True, attempt := 0\<rparr>"

text \<open>One iteration up to \<open>reactor.Wait()\<close>: construct the reactor, publish it, start it.\<close>

definition Run_connect :: "'a sc stream_callbacks \<Rightarrow> 'a sc \<Rightarrow> 'a sc" where
  "Run_connect cbs s =
     (let r = next_reactor s;
          s1 = log_io (Connect r) (s\<lparr>next_reactor := Suc r\<rparr>);
          s2 = s1\<lparr>reactor := Some r\<rparr>
      in Reactor_Start cbs r s2)"

text \<open>
  The rest of the iteration, after \<open>Wait\<close> returned: withdraw the reactor, leave the loop if the
  client should not continue, otherwise count the attempt and sleep. The flag is whether the
  loop goes on.
\<close>

definition Run_retry :: "'a sc stream_options \<Rightarrow> reactor_id \<Rightarrow> 'a sc \<Rightarrow> bool \<times> 'a sc" where
  "Run_retry opts r s =
     (let s1 = (if reactor s = Some r then s\<lparr>reactor := None\<rparr> else s)
      in if \<not> ShouldContinue opts s1 then (False, s1)
         else
           (let s2 = s1\<lparr>attempt := attempt s1 + 1\<rparr>;
                delay = (case backoff_fn opts of None \<Rightarrow> 0 | Some f \<Rightarrow> f (attempt s2))
            in (True, if delay > 0 then s2\<lparr>slept := slept s2 @ [delay]\<rparr> else s2)))"

text \<open>
  The whole loop. \<open>during r s\<close> is what the gRPC callbacks and the other threads do to the state
  between \<open>Start\<close> and the return of \<open>Wait\<close>. The loop has no bound of its own, so it takes fuel;
  \<open>None\<close> is a loop still running.
\<close>

fun Run_loop ::
  "nat \<Rightarrow> 'a sc stream_options \<Rightarrow> 'a sc stream_callbacks \<Rightarrow> (reactor_id \<Rightarrow> 'a sc \<Rightarrow> 'a sc) \<Rightarrow>
   'a sc \<Rightarrow> 'a sc option" where
  "Run_loop 0 opts cbs during s = None"
| "Run_loop (Suc n) opts cbs during s =
     (if \<not> ShouldContinue opts s then Some (s\<lparr>s_running := False\<rparr>)
      else
        (let r = next_reactor s;
             s1 = during r (Run_connect cbs s);
             (continue, s2) = Run_retry opts r s1
         in if continue then Run_loop n opts cbs during s2
            else Some (s2\<lparr>s_running := False\<rparr>)))"

definition Run ::
  "nat \<Rightarrow> 'a sc stream_options \<Rightarrow> 'a sc stream_callbacks \<Rightarrow> (reactor_id \<Rightarrow> 'a sc \<Rightarrow> 'a sc) \<Rightarrow>
   'a sc \<Rightarrow> 'a sc option" where
  "Run fuel opts cbs during s = Run_loop fuel opts cbs during (Run_begin s)"

definition CancelStream :: "'a sc \<Rightarrow> 'a sc" where
  "CancelStream s = (case reactor s of None \<Rightarrow> s | Some r \<Rightarrow> Reactor_Stop r s)"

definition Stop :: "'a sc \<Rightarrow> 'a sc" where
  "Stop s =
     (let s1 = s\<lparr>s_running := False\<rparr>
      in case reactor s1 of None \<Rightarrow> s1 | Some r \<Rightarrow> Reactor_Stop r s1)"

section \<open>What gRPC requires of the calls\<close>

text \<open>Whether a write on \<open>r\<close> has been started and not yet reported done.\<close>

definition outstanding_step :: "reactor_id \<Rightarrow> bool \<Rightarrow> grpc_io \<Rightarrow> bool" where
  "outstanding_step r b e =
     (case e of StartWrite r' m \<Rightarrow> if r' = r then True else b
      | WriteDone r' k \<Rightarrow> if r' = r then False else b
      | _ \<Rightarrow> b)"

definition outstanding :: "reactor_id \<Rightarrow> grpc_io list \<Rightarrow> bool" where
  "outstanding r log = foldl (outstanding_step r) False log"

lemma outstanding_simps [simp]:
  "\<not> outstanding r []"
  "outstanding r (log @ [StartWrite r' m]) \<longleftrightarrow> r' = r \<or> outstanding r log"
  "outstanding r (log @ [WriteDone r' k]) \<longleftrightarrow> r' \<noteq> r \<and> outstanding r log"
  "outstanding r (log @ [Connect r']) \<longleftrightarrow> outstanding r log"
  "outstanding r (log @ [StartCall r']) \<longleftrightarrow> outstanding r log"
  "outstanding r (log @ [StartRead r']) \<longleftrightarrow> outstanding r log"
  "outstanding r (log @ [TryCancel r']) \<longleftrightarrow> outstanding r log"
  "outstanding r (log @ [ReadDone r' k]) \<longleftrightarrow> outstanding r log"
  "outstanding r (log @ [Done r']) \<longleftrightarrow> outstanding r log"
  by (auto simp: outstanding_def outstanding_step_def)

text \<open>
  The contract of \<open>ClientBidiReactor\<close>: a write is started only on a connected reactor that has
  not reported \<open>OnDone\<close>, and never while another write on it is outstanding.
\<close>

definition grpc_writes_ok :: "grpc_io list \<Rightarrow> bool" where
  "grpc_writes_ok log \<longleftrightarrow>
     (\<forall>pre r m post. log = pre @ StartWrite r m # post \<longrightarrow>
        Connect r \<in> set pre \<and> Done r \<notin> set pre \<and> \<not> outstanding r pre)"

lemma grpc_writes_ok_Nil [simp]: "grpc_writes_ok []"
  by (simp add: grpc_writes_ok_def)

lemma grpc_writes_ok_snoc:
  "grpc_writes_ok (log @ [e]) \<longleftrightarrow>
     grpc_writes_ok log \<and>
     (\<forall>r m. e = StartWrite r m \<longrightarrow> Connect r \<in> set log \<and> Done r \<notin> set log \<and> \<not> outstanding r log)"
  (is "?L \<longleftrightarrow> ?R")
proof
  assume ?L
  then have "\<forall>pre r m post. log @ [e] = pre @ StartWrite r m # post \<longrightarrow>
      Connect r \<in> set pre \<and> Done r \<notin> set pre \<and> \<not> outstanding r pre"
    by (simp only: grpc_writes_ok_def)
  then show ?R
    unfolding grpc_writes_ok_def by (metis append.assoc append_Cons)
next
  assume R: ?R
  show ?L
    unfolding grpc_writes_ok_def
  proof (intro allI impI)
    fix pre r m post
    assume eq: "log @ [e] = pre @ StartWrite r m # post"
    show "Connect r \<in> set pre \<and> Done r \<notin> set pre \<and> \<not> outstanding r pre"
    proof (cases post rule: rev_cases)
      case Nil
      with eq R show ?thesis by simp
    next
      case (snoc post' y)
      with eq have "log = pre @ StartWrite r m # post'" by simp
      with R show ?thesis by (auto simp: grpc_writes_ok_def)
    qed
  qed
qed

text \<open>The messages handed to gRPC, in order.\<close>

fun started :: "grpc_io list \<Rightarrow> AgentToServer list" where
  "started [] = []"
| "started (StartWrite r m # log) = m # started log"
| "started (_ # log) = started log"

lemma started_append [simp]: "started (xs @ ys) = started xs @ started ys"
  by (induction xs rule: started.induct) auto

fun writes_on :: "reactor_id \<Rightarrow> grpc_io list \<Rightarrow> AgentToServer list" where
  "writes_on r [] = []"
| "writes_on r (StartWrite r' m # log) = (if r' = r then m # writes_on r log else writes_on r log)"
| "writes_on r (_ # log) = writes_on r log"

lemma writes_on_append [simp]: "writes_on r (xs @ ys) = writes_on r xs @ writes_on r ys"
  by (induction r xs rule: writes_on.induct) auto

lemma writes_on_fresh: "(\<forall>m. StartWrite r m \<notin> set log) \<Longrightarrow> writes_on r log = []"
  by (induction r log rule: writes_on.induct) auto

section \<open>The invariant of the write queue\<close>

definition stream_inv :: "'a sc \<Rightarrow> bool" where
  "stream_inv s \<longleftrightarrow>
     grpc_writes_ok (io_log s) \<and>
     (write_in_flight s \<longleftrightarrow> current_write s \<noteq> None) \<and>
     (write_in_flight s \<longrightarrow> reactor s \<noteq> None) \<and>
     (\<forall>r. outstanding r (io_log s) \<longleftrightarrow> write_in_flight s \<and> reactor s = Some r) \<and>
     (\<forall>r. reactor s = Some r \<longleftrightarrow> Connect r \<in> set (io_log s) \<and> Done r \<notin> set (io_log s)) \<and>
     (\<forall>r. Connect r \<in> set (io_log s) \<longrightarrow> r < next_reactor s) \<and>
     (\<forall>r. Done r \<in> set (io_log s) \<longrightarrow> r < next_reactor s) \<and>
     (\<forall>r m. StartWrite r m \<in> set (io_log s) \<longrightarrow> r < next_reactor s) \<and>
     (\<forall>r. done_status s r \<noteq> None \<longrightarrow> Done r \<in> set (io_log s)) \<and>
     subseq (started (io_log s) @ pending_writes s) (enqueued s)"

lemma stream_inv_new: "stream_inv (new_stream_client x)"
  by (simp add: stream_inv_def new_stream_client_def)

text \<open>The owner's part of the state does not matter to the invariant.\<close>

lemma stream_inv_more [simp]: "stream_inv (stream_client.more_update f s) = stream_inv s"
  by (simp add: stream_inv_def)

lemma MaybeStartWriteLocked_cases:
  obtains (idle) "MaybeStartWriteLocked s = s"
      "write_in_flight s \<or> pending_writes s = [] \<or> reactor s = None"
    | (start) r m ms where "\<not> write_in_flight s" "pending_writes s = m # ms" "reactor s = Some r"
        "MaybeStartWriteLocked s =
           log_io (StartWrite r m)
             (s\<lparr>current_write := Some m, pending_writes := ms, write_in_flight := True\<rparr>)"
  by (cases "write_in_flight s"; cases "pending_writes s"; cases "reactor s")
     (auto simp: MaybeStartWriteLocked_def)

lemma stream_inv_MaybeStartWriteLocked: "stream_inv s \<Longrightarrow> stream_inv (MaybeStartWriteLocked s)"
proof (cases s rule: MaybeStartWriteLocked_cases)
  case idle
  then show "stream_inv s \<Longrightarrow> ?thesis" by simp
next
  case (start r m ms)
  assume inv: "stream_inv s"
  from inv start(1,3) have "\<not> outstanding r (io_log s)"
    and "Connect r \<in> set (io_log s)" "Done r \<notin> set (io_log s)"
    by (auto simp: stream_inv_def)
  with inv start show ?thesis
    by (auto simp: stream_inv_def log_io_def grpc_writes_ok_snoc)
qed

lemma MaybeStartWriteLocked_frame [simp]:
  "reactor (MaybeStartWriteLocked s) = reactor s"
  "next_reactor (MaybeStartWriteLocked s) = next_reactor s"
  "s_running (MaybeStartWriteLocked s) = s_running s"
  "attempt (MaybeStartWriteLocked s) = attempt s"
  "done_status (MaybeStartWriteLocked s) = done_status s"
  "enqueued (MaybeStartWriteLocked s) = enqueued s"
  "slept (MaybeStartWriteLocked s) = slept s"
  "stream_client.more (MaybeStartWriteLocked s) = stream_client.more s"
  "started (io_log (MaybeStartWriteLocked s)) @ pending_writes (MaybeStartWriteLocked s)
     = started (io_log s) @ pending_writes s"
  by (cases s rule: MaybeStartWriteLocked_cases; simp add: log_io_def)+

lemma MaybeStartWriteLocked_log_mono: "set (io_log s) \<subseteq> set (io_log (MaybeStartWriteLocked s))"
  by (cases s rule: MaybeStartWriteLocked_cases) (auto simp: log_io_def)

lemma EnqueueWrite_frame [simp]:
  "reactor (EnqueueWrite m s) = reactor s"
  "next_reactor (EnqueueWrite m s) = next_reactor s"
  "s_running (EnqueueWrite m s) = s_running s"
  "attempt (EnqueueWrite m s) = attempt s"
  "done_status (EnqueueWrite m s) = done_status s"
  "slept (EnqueueWrite m s) = slept s"
  "stream_client.more (EnqueueWrite m s) = stream_client.more s"
  "enqueued (EnqueueWrite m s) = enqueued s @ [m]"
  by (simp_all add: EnqueueWrite_def)

lemma stream_inv_EnqueueWrite: "stream_inv s \<Longrightarrow> stream_inv (EnqueueWrite m s)"
proof -
  assume inv: "stream_inv s"
  then have "stream_inv (s\<lparr>enqueued := enqueued s @ [m], pending_writes := pending_writes s @ [m]\<rparr>)"
    by (auto simp: stream_inv_def simp flip: append_assoc)
  then show ?thesis by (simp add: EnqueueWrite_def stream_inv_MaybeStartWriteLocked)
qed

lemma log_io_frame [simp]:
  "reactor (log_io e s) = reactor s" "next_reactor (log_io e s) = next_reactor s"
  "s_running (log_io e s) = s_running s" "enqueued (log_io e s) = enqueued s"
  "pending_writes (log_io e s) = pending_writes s" "write_in_flight (log_io e s) = write_in_flight s"
  "current_write (log_io e s) = current_write s" "attempt (log_io e s) = attempt s"
  "done_status (log_io e s) = done_status s" "slept (log_io e s) = slept s"
  "stream_client.more (log_io e s) = stream_client.more s" "io_log (log_io e s) = io_log s @ [e]"
  by (simp_all add: log_io_def)

lemma CancelStream_frame [simp]:
  "reactor (CancelStream s) = reactor s" "next_reactor (CancelStream s) = next_reactor s"
  "s_running (CancelStream s) = s_running s" "enqueued (CancelStream s) = enqueued s"
  "pending_writes (CancelStream s) = pending_writes s"
  "write_in_flight (CancelStream s) = write_in_flight s" "attempt (CancelStream s) = attempt s"
  "stream_client.more (CancelStream s) = stream_client.more s" "done_status (CancelStream s) = done_status s"
  by (simp_all add: CancelStream_def Reactor_Stop_def split: option.split)

text \<open>Calls and reports that neither start nor finish a write keep the invariant.\<close>

lemma stream_inv_log_neutral:
  assumes "stream_inv s"
    and "e = StartCall r \<or> e = StartRead r \<or> e = TryCancel r \<or> e = ReadDone r k"
  shows "stream_inv (log_io e s)"
  using assms by (auto simp: stream_inv_def grpc_writes_ok_snoc)

lemma stream_inv_CancelStream: "stream_inv s \<Longrightarrow> stream_inv (CancelStream s)"
  by (auto simp: CancelStream_def Reactor_Stop_def intro: stream_inv_log_neutral split: option.split)

lemma stream_inv_control [simp]:
  "stream_inv (s\<lparr>s_running := b\<rparr>) = stream_inv s"
  "stream_inv (s\<lparr>attempt := n\<rparr>) = stream_inv s"
  "stream_inv (s\<lparr>slept := ds\<rparr>) = stream_inv s"
  by (simp_all add: stream_inv_def)

lemma stream_inv_Stop: "stream_inv s \<Longrightarrow> stream_inv (Stop s)"
  by (auto simp: Stop_def Reactor_Stop_def Let_def intro: stream_inv_log_neutral split: option.split)

lemma subseq_appendD: "subseq (xs @ ys) zs \<Longrightarrow> subseq xs zs"
  by (meson subseq_order.order_trans subseq_order.order_refl subseq_rev_drop_many)

interpretation stream_sink: message_sink EnqueueWrite enqueued stream_inv
  by unfold_locales (simp_all add: stream_inv_EnqueueWrite)

lemma stream_inv_OnWriteDone:
  assumes inv: "stream_inv s" and out: "outstanding r (io_log s)"
  shows "stream_inv (Reactor_OnWriteDone r ok s)"
proof -
  define s2 where "s2 = (let s1 = (log_io (WriteDone r ok) s)\<lparr>write_in_flight := False, current_write := None\<rparr>
     in if \<not> ok then s1\<lparr>pending_writes := []\<rparr> else s1)"
  from inv out have r: "reactor s = Some r" and sub: "subseq (started (io_log s)) (enqueued s)"
    by (auto simp: stream_inv_def dest: subseq_appendD)
  from inv r sub have "stream_inv s2"
    by (auto simp: stream_inv_def s2_def grpc_writes_ok_snoc Let_def)
  then show ?thesis
    by (simp add: Reactor_OnWriteDone_def OnWriteFinished_def s2_def stream_inv_MaybeStartWriteLocked Let_def)
qed

section \<open>The owner's contract\<close>

text \<open>
  The owner of the stream reacts to a callback only by sending, by cancelling the stream and by
  changing its own part of the state.
\<close>

inductive owner_steps :: "'a sc \<Rightarrow> 'a sc \<Rightarrow> bool" for s where
  idle: "owner_steps s s"
| send: "owner_steps s t \<Longrightarrow> owner_steps s (EnqueueWrite m t)"
| cancel: "owner_steps s t \<Longrightarrow> owner_steps s (CancelStream t)"
| own: "owner_steps s t \<Longrightarrow> owner_steps s (stream_client.more_update f t)"

lemma owner_steps_trans: "owner_steps s t \<Longrightarrow> owner_steps t u \<Longrightarrow> owner_steps s u"
  by (rotate_tac, induction rule: owner_steps.induct) (auto intro: owner_steps.intros)

lemma owner_steps_sends: "owner_steps s t \<Longrightarrow> owner_steps s (fold EnqueueWrite ms t)"
  by (induction ms arbitrary: t) (auto intro: owner_steps.send)

lemma owner_steps_inv: "owner_steps s t \<Longrightarrow> stream_inv s \<Longrightarrow> stream_inv t"
  by (induction rule: owner_steps.induct)
     (auto intro: stream_inv_EnqueueWrite stream_inv_CancelStream)

lemma owner_steps_frame:
  "owner_steps s t \<Longrightarrow> reactor t = reactor s \<and> next_reactor t = next_reactor s \<and>
     done_status t = done_status s \<and> attempt t = attempt s \<and> s_running t = s_running s"
  by (induction rule: owner_steps.induct) auto

lemma owner_steps_log_mono: "owner_steps s t \<Longrightarrow> set (io_log s) \<subseteq> set (io_log t)"
proof (induction rule: owner_steps.induct)
  case (send t m)
  then show ?case
    using MaybeStartWriteLocked_log_mono by (fastforce simp: EnqueueWrite_def)
next
  case (cancel t)
  then show ?case by (auto simp: CancelStream_def Reactor_Stop_def split: option.split)
qed auto

locale stream_owner =
  fixes cbs :: "'a sc stream_callbacks"
  assumes ready_owner: "ready_callback cbs = Some f \<Longrightarrow> owner_steps s (f s)"
    and message_owner: "message_callback cbs = Some g \<Longrightarrow> owner_steps s (g msg ok s)"
    and closed_owner: "stream_closed_callback cbs = Some h \<Longrightarrow> owner_steps s (h st s)"
begin

lemma inv_OnStreamReady:
  assumes "stream_inv s" and "reactor s = Some r"
  shows "stream_inv (OnStreamReady cbs r s)"
proof -
  have "s\<lparr>reactor := Some r\<rparr> = s" using assms(2) by simp
  then show ?thesis
    using assms(1) ready_owner owner_steps_inv
    by (auto simp: OnStreamReady_def Let_def intro!: stream_inv_MaybeStartWriteLocked split: option.split)
qed

lemma inv_Reactor_Start:
  assumes "stream_inv s" and "reactor s = Some r"
  shows "stream_inv (Reactor_Start cbs r s)"
  using assms unfolding Reactor_Start_def
  by (auto intro!: stream_inv_log_neutral inv_OnStreamReady)

lemma inv_Run_connect:
  assumes inv: "stream_inv s" and none: "reactor s = None"
  shows "stream_inv (Run_connect cbs s)"
proof -
  let ?r = "next_reactor s"
  let ?s = "(log_io (Connect ?r) (s\<lparr>next_reactor := Suc ?r\<rparr>))\<lparr>reactor := Some ?r\<rparr>"
  from inv have "Done ?r \<notin> set (io_log s)" by (auto simp: stream_inv_def)
  with inv none have "stream_inv ?s"
    by (auto simp: stream_inv_def grpc_writes_ok_snoc less_Suc_eq)
  then show ?thesis
    by (simp add: Run_connect_def Let_def inv_Reactor_Start)
qed

lemma inv_OnReadDone: "stream_inv s \<Longrightarrow> stream_inv (Reactor_OnReadDone cbs r msg ok s)"
proof -
  assume inv: "stream_inv s"
  then have "stream_inv (log_io (ReadDone r ok) s)" by (blast intro: stream_inv_log_neutral)
  then have "stream_inv (OnMessage cbs msg ok (log_io (ReadDone r ok) s))"
    by (cases "message_callback cbs")
       (auto simp: OnMessage_def intro: owner_steps_inv [OF message_owner])
  then show ?thesis
    by (auto simp: Reactor_OnReadDone_def Let_def intro: stream_inv_log_neutral)
qed

lemma inv_OnDone:
  assumes inv: "stream_inv s" and r: "reactor s = Some r" and out: "\<not> outstanding r (io_log s)"
  shows "stream_inv (Reactor_OnDone cbs r st s)"
proof -
  let ?s = "(log_io (Done r) s)\<lparr>write_in_flight := False, current_write := None,
              pending_writes := [], reactor := None\<rparr>"
  from inv have "subseq (started (io_log s)) (enqueued s)"
    by (auto simp: stream_inv_def dest: subseq_appendD)
  with inv r out have s: "stream_inv ?s"
    by (auto simp: stream_inv_def grpc_writes_ok_snoc)
  have eff: "owner_steps ?s (OnStreamClosed cbs st (log_io (Done r) s))"
    using closed_owner by (auto simp: OnStreamClosed_def Let_def intro: owner_steps.idle split: option.split)
  then have "stream_inv (OnStreamClosed cbs st (log_io (Done r) s))"
    using s by (rule owner_steps_inv)
  moreover have "Done r \<in> set (io_log (OnStreamClosed cbs st (log_io (Done r) s)))"
    using owner_steps_log_mono [OF eff] by auto
  ultimately show ?thesis
    by (auto simp: Reactor_OnDone_def Let_def stream_inv_def)
qed

end

section \<open>Interleavings\<close>

text \<open>
  One step of the stream client: a thread enqueues, cancels or stops, the owner changes its own
  part, the run thread connects or prepares the next attempt, or gRPC reports a completion. The
  guards of the reports are gRPC's documented behaviour: a write completion follows a started
  write, and \<open>OnDone\<close> is the last report of a live reactor, after its writes have completed.
\<close>

definition live :: "reactor_id \<Rightarrow> 'a sc \<Rightarrow> bool" where
  "live r s \<longleftrightarrow> Connect r \<in> set (io_log s) \<and> Done r \<notin> set (io_log s)"

inductive stream_step ::
  "'a sc stream_options \<Rightarrow> 'a sc stream_callbacks \<Rightarrow> 'a sc \<Rightarrow> 'a sc \<Rightarrow> bool"
  for opts cbs where
  owner: "owner_steps s t \<Longrightarrow> stream_step opts cbs s t"
| stop: "stream_step opts cbs s (Stop s)"
| connect: "ShouldContinue opts s \<Longrightarrow> \<forall>r < next_reactor s. done_status s r \<noteq> None \<Longrightarrow>
    stream_step opts cbs s (Run_connect cbs s)"
| retry: "done_status s r \<noteq> None \<Longrightarrow> stream_step opts cbs s (snd (Run_retry opts r s))"
| write_done: "outstanding r (io_log s) \<Longrightarrow> stream_step opts cbs s (Reactor_OnWriteDone r k s)"
| read_done: "live r s \<Longrightarrow> stream_step opts cbs s (Reactor_OnReadDone cbs r msg k s)"
| closed: "live r s \<Longrightarrow> \<not> outstanding r (io_log s) \<Longrightarrow>
    stream_step opts cbs s (Reactor_OnDone cbs r st s)"

lemma stream_inv_live: "stream_inv s \<Longrightarrow> live r s \<longleftrightarrow> reactor s = Some r"
  by (simp add: stream_inv_def live_def)

lemma Run_retry_frame:
  "stream_inv s \<Longrightarrow> done_status s r \<noteq> None \<Longrightarrow>
   stream_inv (snd (Run_retry opts r s)) \<and> reactor (snd (Run_retry opts r s)) = reactor s"
proof -
  assume inv: "stream_inv s" and d: "done_status s r \<noteq> None"
  then have "reactor s \<noteq> Some r" by (auto simp: stream_inv_def)
  with inv show ?thesis by (simp add: Run_retry_def Let_def)
qed

context stream_owner
begin

lemma stream_step_inv: "stream_step opts cbs s t \<Longrightarrow> stream_inv s \<Longrightarrow> stream_inv t"
proof (induction rule: stream_step.induct)
  case (connect s)
  have "reactor s = None"
  proof (cases "reactor s")
    case (Some r)
    with connect.prems have "r < next_reactor s" "Done r \<notin> set (io_log s)"
      by (auto simp: stream_inv_def)
    with connect show ?thesis by (auto simp: stream_inv_def)
  qed
  with connect.prems show ?case by (rule inv_Run_connect)
next
  case (retry s r)
  then show ?case using Run_retry_frame by blast
next
  case (closed r s st)
  then show ?case using inv_OnDone stream_inv_live by blast
qed (auto intro: owner_steps_inv stream_inv_Stop stream_inv_OnWriteDone inv_OnReadDone)

lemma stream_reach_inv:
  "(stream_step opts cbs)\<^sup>*\<^sup>* s t \<Longrightarrow> stream_inv s \<Longrightarrow> stream_inv t"
  by (induction rule: rtranclp_induct) (auto intro: stream_step_inv)

end

section \<open>Reconnecting\<close>

text \<open>
  Every pass through the loop body that goes on counts one attempt, starting from zero, and the
  counter is never reset while the client runs: the \<open>n\<close>-th disconnection waits for the
  \<open>n\<close>-th backoff delay.
\<close>

lemma Run_retry_attempt:
  assumes "Run_retry opts r s = (b, t)" and "backoff_fn opts = Some f"
  shows "attempt t = (if b then Suc (attempt s) else attempt s)"
    and "slept t = slept s @ (if b \<and> f (Suc (attempt s)) > 0 then [f (Suc (attempt s))] else [])"
  using assms by (auto simp: Run_retry_def Let_def split: if_splits)

lemma Run_loop_slept:
  assumes "Run_loop n opts cbs during s = Some t" and "backoff_fn opts = Some f"
    and conn: "\<And>u. attempt (Run_connect cbs u) = attempt u \<and> slept (Run_connect cbs u) = slept u"
    and dur: "\<And>r u. attempt (during r u) = attempt u \<and> slept (during r u) = slept u"
  shows "attempt s \<le> attempt t \<and>
         slept t = slept s @ filter (\<lambda>d. d > 0) (map f [Suc (attempt s)..<Suc (attempt t)])"
  using assms(1)
proof (induction n arbitrary: s)
  case 0
  then show ?case by simp
next
  case (Suc n)
  show ?case
  proof (cases "ShouldContinue opts s")
    case False
    with Suc.prems show ?thesis by auto
  next
    case True
    obtain b u where ret: "Run_retry opts (next_reactor s) (during (next_reactor s) (Run_connect cbs s)) = (b, u)"
      by fastforce
    note u = Run_retry_attempt [OF ret assms(2)]
    have same: "attempt (during (next_reactor s) (Run_connect cbs s)) = attempt s"
      "slept (during (next_reactor s) (Run_connect cbs s)) = slept s"
      by (simp_all add: dur conn)
    show ?thesis
    proof (cases b)
      case False
      with Suc.prems True ret u same show ?thesis by (auto simp: Let_def)
    next
      case b: True
      with Suc.prems True ret have "Run_loop n opts cbs during u = Some t" by (simp add: Let_def)
      from Suc.IH [OF this] u same b have le: "Suc (attempt s) \<le> attempt t"
        and sl: "slept t = slept s @ (if f (Suc (attempt s)) > 0 then [f (Suc (attempt s))] else []) @
          filter (\<lambda>d. d > 0) (map f [Suc (Suc (attempt s))..<Suc (attempt t)])"
        by auto
      have "[Suc (attempt s)..<Suc (attempt t)] = Suc (attempt s) # [Suc (Suc (attempt s))..<Suc (attempt t)]"
        using le by (simp add: upt_rec)
      with sl le show ?thesis by simp
    qed
  qed
qed

end
