(* ===== verification/Task_Base.thy ===== *)
theory Task_Base
  imports Ops_Proto
begin

text \<open>
  The task objects (\<open>standalone/source/agent/tasks/task.h\<close>), their constructors and the parameter
  validation each task class performs before it is queued, and the interface \<open>TaskContext\<close>
  through which a running task reports.
\<close>

section \<open>Task objects\<close>

datatype Kind = kLogFilter | kPcap | kExec

datatype TaskState = kPending | kRunning | kPaused | kCompleted | kCancelled | kFailed

text \<open>The data members of the three subclasses.\<close>

datatype task_body =
    LogFilterTask LogFilterSpec LogOptions
  | PcapTask PcapSpec LogOptions
  | ExecTask ExecSpec

record Task =
  op_id :: u32
  kind :: Kind
  task_state :: TaskState
  cancel_requested :: bool
  pause_requested :: bool
  body :: task_body

definition new_Task :: "u32 \<Rightarrow> Kind \<Rightarrow> task_body \<Rightarrow> Task" where
  "new_Task i k b = \<lparr>op_id = i, kind = k, task_state = kPending, cancel_requested = False,
     pause_requested = False, body = b\<rparr>"

definition make_LogFilterTask :: "u32 \<Rightarrow> LogFilterSpec \<Rightarrow> LogOptions \<Rightarrow> Task" where
  "make_LogFilterTask i spec opts = new_Task i kLogFilter (LogFilterTask spec opts)"

definition make_PcapTask :: "u32 \<Rightarrow> PcapSpec \<Rightarrow> LogOptions \<Rightarrow> Task" where
  "make_PcapTask i spec opts = new_Task i kPcap (PcapTask spec opts)"

definition make_ExecTask :: "u32 \<Rightarrow> ExecSpec \<Rightarrow> Task" where
  "make_ExecTask i spec = new_Task i kExec (ExecTask spec)"

definition RequestCancel :: "Task \<Rightarrow> Task" where
  "RequestCancel t = t\<lparr>cancel_requested := True\<rparr>"

definition RequestPause :: "Task \<Rightarrow> Task" where
  "RequestPause t = t\<lparr>pause_requested := True\<rparr>"

definition SetState :: "TaskState \<Rightarrow> Task \<Rightarrow> Task" where
  "SetState st t = t\<lparr>task_state := st\<rparr>"

lemma RequestCancel_frame [simp]:
  "op_id (RequestCancel t) = op_id t" "kind (RequestCancel t) = kind t"
  "body (RequestCancel t) = body t" "cancel_requested (RequestCancel t)"
  by (simp_all add: RequestCancel_def)

lemma SetState_frame [simp]:
  "op_id (SetState st t) = op_id t" "kind (SetState st t) = kind t"
  "body (SetState st t) = body t" "task_state (SetState st t) = st"
  "cancel_requested (SetState st t) = cancel_requested t"
  by (simp_all add: SetState_def)

section \<open>Validation\<close>

text \<open>\<open>Validate\<close> returns whether the parameters are accepted and the reason written to \<open>*reason\<close>.\<close>

definition LogFilterTask_Validate :: "LogOptions \<Rightarrow> bool \<times> string" where
  "LogFilterTask_Validate opts =
     (if base_path opts = '''' then (False, ''missing log base path'')
      else if include_rotations opts \<and> rotation_scan_depth opts = 0 then (False, ''invalid rotation depth'')
      else if chunk_size opts = 0 then (False, ''invalid chunk size'')
      else (True, ''''))"

definition exec_cmd_supported :: "string \<Rightarrow> bool" where
  "exec_cmd_supported c \<longleftrightarrow> c = ''ip'' \<or> c = ''ip addr'' \<or> c = ''ipaddress''"

definition ExecTask_Validate :: "ExecSpec \<Rightarrow> bool \<times> string" where
  "ExecTask_Validate spec =
     (if cmd spec \<noteq> '''' \<and> \<not> exec_cmd_supported (cmd spec) then (False, ''unsupported exec command'')
      else (True, ''''))"

text \<open>\<open>PcapTask\<close> inherits \<open>Task::Validate\<close>, which accepts everything.\<close>

fun Validate :: "task_body \<Rightarrow> bool \<times> string" where
  "Validate (LogFilterTask spec opts) = LogFilterTask_Validate opts"
| "Validate (PcapTask spec opts) = (True, '''')"
| "Validate (ExecTask spec) = ExecTask_Validate spec"

section \<open>The context of a running task\<close>

record 'c TaskContext =
  SendLogData :: "u32 \<Rightarrow> LogChunk \<Rightarrow> 'c \<Rightarrow> 'c"
  SendEofLog :: "u32 \<Rightarrow> LogFilterEof \<Rightarrow> 'c \<Rightarrow> 'c"
  SendPcapData :: "u32 \<Rightarrow> PcapPacket \<Rightarrow> 'c \<Rightarrow> 'c"
  SendEofPcap :: "u32 \<Rightarrow> PcapStats \<Rightarrow> 'c \<Rightarrow> 'c"
  SendError :: "u32 \<Rightarrow> string \<Rightarrow> string \<Rightarrow> 'c \<Rightarrow> 'c"
  SendExecData :: "u32 \<Rightarrow> ExecChunk \<Rightarrow> 'c \<Rightarrow> 'c"
  SendEofExec :: "u32 \<Rightarrow> ExecExit \<Rightarrow> 'c \<Rightarrow> 'c"

text \<open>
  What a task may rely on: each call sends exactly one message, of the kind its name says, for
  the operation it names.
\<close>

locale task_context =
  fixes ctx :: "'c TaskContext"
    and sent :: "'c \<Rightarrow> AgentToServer list"
  assumes log_data: "sent (SendLogData ctx i ch c) = sent c @ [Data i (LogChunkP ch)]"
    and log_eof: "sent (SendEofLog ctx i e c) = sent c @ [Eof i (LogT e)]"
    and pcap_data: "sent (SendPcapData ctx i p c) = sent c @ [Data i (PcapPacketP p)]"
    and pcap_eof: "sent (SendEofPcap ctx i st c) = sent c @ [Eof i (PcapT st)]"
    and error_msg: "sent (SendError ctx i co ms c) = sent c @ [Error i co ms]"
    and exec_data: "sent (SendExecData ctx i x c) = sent c @ [Data i (ExecChunkP x)]"
    and exec_eof: "sent (SendEofExec ctx i q c) = sent c @ [Eof i (ExecT q)]"
begin

lemmas context_laws = log_data log_eof pcap_data pcap_eof error_msg exec_data exec_eof

end

text \<open>
  The shape of a task's output: data messages for its own operation, then one trailer or error
  for it, and nothing more.
\<close>

definition well_formed_output :: "u32 \<Rightarrow> AgentToServer list \<Rightarrow> bool" where
  "well_formed_output i ms \<longleftrightarrow>
     ms \<noteq> [] \<and> is_terminal_for i (last ms) \<and> (\<forall>m \<in> set (butlast ms). is_data_for i m)"

lemma well_formed_outputI:
  "\<forall>m \<in> set ds. is_data_for i m \<Longrightarrow> is_terminal_for i t \<Longrightarrow> well_formed_output i (ds @ [t])"
  by (simp add: well_formed_output_def)

lemma data_not_terminal: "is_data_for i m \<Longrightarrow> \<not> is_terminal_for j m"
  by (cases m) auto

lemma well_formed_output_terminals:
  assumes "well_formed_output i ms"
  shows "terminals i ms = 1" and "j \<noteq> i \<Longrightarrow> terminals j ms = 0"
proof -
  obtain ds t where ms: "ms = ds @ [t]"
    using assms by (metis append_butlast_last_id well_formed_output_def)
  with assms have t: "is_terminal_for i t" and ds: "\<forall>m \<in> set ds. is_data_for i m"
    by (auto simp: well_formed_output_def)
  from ds have "terminals k ds = 0" for k
    by (induction ds) (auto simp: data_not_terminal)
  moreover have "j \<noteq> i \<Longrightarrow> \<not> is_terminal_for j t" using t by (cases t) auto
  ultimately show "terminals i ms = 1" and "j \<noteq> i \<Longrightarrow> terminals j ms = 0"
    using t by (simp_all add: ms)
qed

end
