(* ===== verification/Event_Bus.thy ===== *)
theory Event_Bus
  imports Zurg_Prelude
begin

text \<open>
  Authorization states and the process-wide event bus (\<open>include/zurg/event\<close>). The bus wraps
  \<open>eventpp::EventDispatcher\<close>, a library, which is a parameter here: a record of its three
  operations over an abstract dispatcher state. A callback acts on the state \<open>'s\<close> of the
  program. The payload \<open>std::any\<close> always holds the one event type the program publishes.
\<close>

datatype AuthMode = Mode_kUnknown | Mode_kOnline | Mode_kOffline

datatype AuthState = State_kUnknown | State_kOnline | State_kOffline

datatype EventType = kAuthStateChanged

datatype AuthStateChangedEvent = AuthStateChangedEvent (event_state: AuthState)

record ('d, 'h, 's) dispatcher =
  appendListener :: "EventType \<Rightarrow> (AuthStateChangedEvent \<Rightarrow> 's \<Rightarrow> 's) \<Rightarrow> 'd \<Rightarrow> 'd \<times> 'h"
  removeListener :: "EventType \<Rightarrow> 'h \<Rightarrow> 'd \<Rightarrow> 'd"
  dispatch :: "EventType \<Rightarrow> AuthStateChangedEvent \<Rightarrow> 'd \<Rightarrow> 's \<Rightarrow> 's"

record 'd event_bus =
  dispatcher_state :: 'd
  last_events :: "EventType \<Rightarrow> AuthStateChangedEvent option"

text \<open>\<open>tok_bus\<close> is whether the pointer \<open>bus_\<close> is set; the handle of a default token is absent.\<close>

record 'h SubscriptionToken =
  tok_type :: EventType
  tok_bus :: bool
  tok_handle :: "'h option"
  tok_active :: bool

definition default_token :: "'h SubscriptionToken" where
  "default_token = \<lparr>tok_type = kAuthStateChanged, tok_bus = False, tok_handle = None, tok_active = False\<rparr>"

definition Subscribe ::
  "('d, 'h, 's) dispatcher \<Rightarrow> (AuthStateChangedEvent \<Rightarrow> 's \<Rightarrow> 's) \<Rightarrow> 'd event_bus \<Rightarrow>
   'd event_bus \<times> 'h SubscriptionToken" where
  "Subscribe D callback bus =
     (let (d, h) = appendListener D kAuthStateChanged callback (dispatcher_state bus)
      in (bus\<lparr>dispatcher_state := d\<rparr>,
          \<lparr>tok_type = kAuthStateChanged, tok_bus = True, tok_handle = Some h, tok_active = True\<rparr>))"

definition Publish ::
  "('d, 'h, 's) dispatcher \<Rightarrow> AuthStateChangedEvent \<Rightarrow> 'd event_bus \<Rightarrow> 's \<Rightarrow> 'd event_bus \<times> 's" where
  "Publish D event bus s =
     (let s' = dispatch D kAuthStateChanged event (dispatcher_state bus) s
      in (bus\<lparr>last_events := (last_events bus)(kAuthStateChanged := Some event)\<rparr>, s'))"

definition LastEvent :: "'d event_bus \<Rightarrow> AuthStateChangedEvent option" where
  "LastEvent bus = last_events bus kAuthStateChanged"

definition Bus_Unsubscribe ::
  "('d, 'h, 's) dispatcher \<Rightarrow> EventType \<Rightarrow> 'h \<Rightarrow> 'd event_bus \<Rightarrow> 'd event_bus" where
  "Bus_Unsubscribe D ty h bus =
     bus\<lparr>dispatcher_state := removeListener D ty h (dispatcher_state bus)\<rparr>"

text \<open>\<open>SubscriptionToken::Unsubscribe\<close>.\<close>

definition Token_Unsubscribe ::
  "('d, 'h, 's) dispatcher \<Rightarrow> 'h SubscriptionToken \<Rightarrow> 'd event_bus \<Rightarrow>
   'd event_bus \<times> 'h SubscriptionToken" where
  "Token_Unsubscribe D tok bus =
     (if tok_active tok \<and> tok_bus tok then
        ((case tok_handle tok of None \<Rightarrow> bus | Some h \<Rightarrow> Bus_Unsubscribe D (tok_type tok) h bus),
         tok\<lparr>tok_active := False, tok_bus := False\<rparr>)
      else (bus, tok))"

text \<open>\<open>MoveFrom\<close>: the new token and what is left of the other one.\<close>

definition MoveFrom :: "'h SubscriptionToken \<Rightarrow> 'h SubscriptionToken \<times> 'h SubscriptionToken" where
  "MoveFrom other =
     (\<lparr>tok_type = tok_type other, tok_bus = tok_bus other, tok_handle = tok_handle other,
       tok_active = tok_active other\<rparr>,
      other\<lparr>tok_active := False, tok_bus := False\<rparr>)"

text \<open>Move assignment to a token: unsubscribe the old one, then take over the other.\<close>

definition Token_assign ::
  "('d, 'h, 's) dispatcher \<Rightarrow> 'h SubscriptionToken \<Rightarrow> 'h SubscriptionToken \<Rightarrow> 'd event_bus \<Rightarrow>
   'd event_bus \<times> 'h SubscriptionToken \<times> 'h SubscriptionToken" where
  "Token_assign D this other bus =
     (let (bus', this') = Token_Unsubscribe D this bus;
          (new, rest) = MoveFrom other
      in (bus', new, rest))"

section \<open>What the bus promises\<close>

text \<open>
  The documented behaviour of the dispatcher the bus relies on, with \<open>listeners\<close> its callback list
  for an event: listeners are appended under a fresh handle, removed by handle, and called in the
  order in which they were appended.
\<close>

definition eventpp_laws ::
  "('d, 'h, 's) dispatcher \<Rightarrow> ('d \<Rightarrow> EventType \<Rightarrow> ('h \<times> (AuthStateChangedEvent \<Rightarrow> 's \<Rightarrow> 's)) list) \<Rightarrow> bool" where
  "eventpp_laws D listeners \<longleftrightarrow>
     (\<forall>ty cb d. let (d', h) = appendListener D ty cb d
        in listeners d' ty = listeners d ty @ [(h, cb)] \<and> h \<notin> fst ` set (listeners d ty)) \<and>
     (\<forall>ty h d. listeners (removeListener D ty h d) ty = filter (\<lambda>(k, cb). k \<noteq> h) (listeners d ty)) \<and>
     (\<forall>ty ev d s. dispatch D ty ev d s = fold (\<lambda>(k, cb). cb ev) (listeners d ty) s)"

definition bus_listeners ::
  "('d \<Rightarrow> EventType \<Rightarrow> ('h \<times> (AuthStateChangedEvent \<Rightarrow> 's \<Rightarrow> 's)) list) \<Rightarrow> 'd event_bus \<Rightarrow>
   ('h \<times> (AuthStateChangedEvent \<Rightarrow> 's \<Rightarrow> 's)) list" where
  "bus_listeners listeners bus = listeners (dispatcher_state bus) kAuthStateChanged"

lemma eventpp_lawsD:
  assumes "eventpp_laws D listeners"
  shows "appendListener D ty cb d = (d', h) \<Longrightarrow>
           listeners d' ty = listeners d ty @ [(h, cb)] \<and> h \<notin> fst ` set (listeners d ty)"
    and "listeners (removeListener D ty h d) ty = filter (\<lambda>(k, cb). k \<noteq> h) (listeners d ty)"
    and "dispatch D ty ev d s = fold (\<lambda>(k, cb). cb ev) (listeners d ty) s"
proof -
  have "let (d', h) = appendListener D ty cb d
        in listeners d' ty = listeners d ty @ [(h, cb)] \<and> h \<notin> fst ` set (listeners d ty)"
    using assms by (simp add: eventpp_laws_def)
  then show "appendListener D ty cb d = (d', h) \<Longrightarrow>
           listeners d' ty = listeners d ty @ [(h, cb)] \<and> h \<notin> fst ` set (listeners d ty)" by simp
qed (use assms in \<open>simp_all add: eventpp_laws_def\<close>)

text \<open>
  A subscription lives from \<open>Subscribe\<close> to the \<open>Unsubscribe\<close> of its token: in between every
  published event reaches the callback once, after the callbacks subscribed earlier; afterwards the
  bus calls exactly the listeners it had before. A token unsubscribes at most once, and a token
  that was moved from does nothing while the one moved to takes over.
\<close>

lemma subscription_lifecycle:
  assumes laws: "eventpp_laws D listeners" and sub: "Subscribe D cb bus = (bus1, tok)"
    and uns: "Token_Unsubscribe D (fst (MoveFrom tok)) bus1 = (bus2, tok2)"
  shows "snd (Publish D ev bus1 s) = cb ev (snd (Publish D ev bus s)) \<and>
         bus_listeners listeners bus2 = bus_listeners listeners bus \<and>
         snd (Publish D ev bus2 s) = snd (Publish D ev bus s) \<and>
         Token_Unsubscribe D tok2 bus2 = (bus2, tok2) \<and>
         Token_Unsubscribe D (snd (MoveFrom tok)) bus1 = (bus1, snd (MoveFrom tok))"
proof -
  obtain d h where d: "appendListener D kAuthStateChanged cb (dispatcher_state bus) = (d, h)" by fastforce
  note app = eventpp_lawsD(1) [OF laws d]
  have bus1: "bus1 = bus\<lparr>dispatcher_state := d\<rparr>"
    and tok: "tok = \<lparr>tok_type = kAuthStateChanged, tok_bus = True, tok_handle = Some h, tok_active = True\<rparr>"
    using sub d by (auto simp: Subscribe_def)
  have bus2: "bus2 = bus1\<lparr>dispatcher_state := removeListener D kAuthStateChanged h d\<rparr>"
    and tok2: "tok2 = tok\<lparr>tok_active := False, tok_bus := False\<rparr>"
    using uns by (auto simp: Token_Unsubscribe_def MoveFrom_def tok bus1 Bus_Unsubscribe_def)
  have "filter (\<lambda>(k, cb). k \<noteq> h) (listeners (dispatcher_state bus) kAuthStateChanged) =
      listeners (dispatcher_state bus) kAuthStateChanged"
    using app by (intro filter_True) force
  then have l2: "listeners (removeListener D kAuthStateChanged h d) kAuthStateChanged =
      listeners (dispatcher_state bus) kAuthStateChanged"
    using app by (simp add: eventpp_lawsD(2) [OF laws])
  show ?thesis
    by (simp add: Publish_def Let_def eventpp_lawsD(3) [OF laws] bus1 bus2 tok2 tok app l2 bus_listeners_def
          Token_Unsubscribe_def MoveFrom_def)
qed

text \<open>A dispatcher with the documented behaviour: a list of callbacks and a handle counter.\<close>

definition list_dispatcher ::
  "(nat \<times> (nat \<times> (AuthStateChangedEvent \<Rightarrow> 's \<Rightarrow> 's)) list, nat, 's) dispatcher" where
  "list_dispatcher = \<lparr>
     appendListener = (\<lambda>ty cb (n, ls). ((Suc n, filter (\<lambda>(k, cb). k < n) ls @ [(n, cb)]), n)),
     removeListener = (\<lambda>ty h (n, ls). (n, filter (\<lambda>(k, cb). k \<noteq> h) ls)),
     dispatch = (\<lambda>ty ev (n, ls) s. fold (\<lambda>(k, cb). cb ev) (filter (\<lambda>(k, cb). k < n) ls) s)\<rparr>"

lemma list_dispatcher_laws: "eventpp_laws list_dispatcher (\<lambda>(n, ls) ty. filter (\<lambda>(k, cb). k < n) ls)"
  by (auto simp: eventpp_laws_def list_dispatcher_def Let_def case_prod_beta intro!: filter_cong)

lemma subscription_lifecycle_example:
  "snd (Publish list_dispatcher (AuthStateChangedEvent State_kOnline)
     (fst (Subscribe list_dispatcher (\<lambda>ev s. event_state ev # s)
        \<lparr>dispatcher_state = (0, []), last_events = (\<lambda>_. None)\<rparr>)) []) = [State_kOnline]"
proof -
  let ?bus = "\<lparr>dispatcher_state = (0, []), last_events = (\<lambda>_. None)\<rparr>"
  obtain bus1 tok where sub: "Subscribe list_dispatcher (\<lambda>ev s. event_state ev # s) ?bus = (bus1, tok)" by fastforce
  obtain bus2 tok2 where uns: "Token_Unsubscribe list_dispatcher (fst (MoveFrom tok)) bus1 = (bus2, tok2)" by fastforce
  from subscription_lifecycle [OF list_dispatcher_laws sub uns, of "AuthStateChangedEvent State_kOnline" "[]"]
  show ?thesis unfolding sub by (simp add: Publish_def list_dispatcher_def)
qed

text \<open>
  The bus remembers the last published event: after any sequence of publications ended by one
  of \<open>ev\<close> a late subscriber finds \<open>ev\<close>, and subscribing or unsubscribing does not change that.
\<close>

lemma last_event_remembered:
  "LastEvent (fst (Publish D ev bus s)) = Some ev \<and>
   LastEvent (fst (Subscribe D cb bus)) = LastEvent bus \<and>
   LastEvent (fst (Token_Unsubscribe D tok bus)) = LastEvent bus"
  by (auto simp: LastEvent_def Publish_def Subscribe_def Token_Unsubscribe_def Bus_Unsubscribe_def Let_def
        split: prod.splits option.splits)

end
