(* ===== verification/Callback_Client.thy ===== *)
theory Callback_Client
  imports Stream_Client Task_Base Event_Bus "HOL-Library.AList"
begin

text \<open>
  The control client (\<open>standalone/source/agent/control/control_callback_client.cpp\<close>): the task
  table, the serial task queue, the feature gate driven by the authorization state, and the
  handlers of server messages. Its record extends the stream client's, as the object owns one.

  Task objects are shared between the queue, the table and the current task, and the code
  compares them by address and mutates them through any of these, so they live in a heap:
  \<open>task_ptr\<close> is an address, 0 the null pointer. \<open>tasks_\<close>, an \<open>unordered_map\<close>, is an association
  list in iteration order. Every critical section of \<open>mu_\<close> is one definition; a handler that
  sends after releasing the lock is that definition followed by its sends, so that the
  interleaving model can separate them.
\<close>

section \<open>State\<close>

type_synonym task_ptr = nat

abbreviation nullptr :: task_ptr where
  "nullptr \<equiv> 0"

text \<open>
  \<open>env_run\<close> is the current answer of \<open>options_.should_run()\<close>, which the environment changes;
  \<open>next_ptr\<close> the next free address.
\<close>

record callback_client = stream_client +
  agent_id :: string
  log_options :: LogOptions
  env_run :: bool
  c_running :: bool
  heap :: "task_ptr \<Rightarrow> Task"
  next_ptr :: task_ptr
  task_queue :: "task_ptr list"
  tasks :: "(u32 \<times> task_ptr) list"
  current_task :: task_ptr
  drain_mode :: bool
  stop_worker :: bool
  requested_features :: FeatureToggles
  active_features :: FeatureToggles

section \<open>Messages\<close>

definition kAuthorizationDisabledReason :: string where
  "kAuthorizationDisabledReason = ''authorization disabled''"
definition kFeaturesDisabledReason :: string where
  "kFeaturesDisabledReason = ''features disabled''"
definition kLogFilterDisabledReason :: string where
  "kLogFilterDisabledReason = ''log filter disabled''"
definition kPcapDisabledReason :: string where
  "kPcapDisabledReason = ''pcap disabled''"
definition kExecDisabledReason :: string where
  "kExecDisabledReason = ''exec disabled''"
definition kAuthorizationErrorMessage :: string where
  "kAuthorizationErrorMessage = ''operation disabled by authorization state''"

definition MakeHello :: "string \<Rightarrow> AgentToServer" where
  "MakeHello i = Hello \<lparr>hello_agent_id = i, version = ''zurg-agent-dev'', platform = ''linux'',
     caps = \<lparr>if_names = [''lo''], supports_shell = False, supports_promisc = False,
             allowed_exec_cmds = []\<rparr>\<rparr>"

definition MakePong :: "string \<Rightarrow> u64 \<Rightarrow> AgentToServer" where
  "MakePong i sq = Pong i sq"

definition sends :: "AgentToServer list \<Rightarrow> callback_client \<Rightarrow> callback_client" where
  "sends ms c = fold EnqueueWrite ms c"

definition SendAck :: "u32 \<Rightarrow> bool \<Rightarrow> string \<Rightarrow> callback_client \<Rightarrow> callback_client" where
  "SendAck i accepted reason c = EnqueueWrite (Ack i accepted reason) c"

definition DoSendError :: "u32 \<Rightarrow> string \<Rightarrow> string \<Rightarrow> callback_client \<Rightarrow> callback_client" where
  "DoSendError i code message c = EnqueueWrite (Error i code message) c"

definition DoSendLogData :: "u32 \<Rightarrow> LogChunk \<Rightarrow> callback_client \<Rightarrow> callback_client" where
  "DoSendLogData i chunk c = EnqueueWrite (Data i (LogChunkP chunk)) c"

definition DoSendPcapData :: "u32 \<Rightarrow> PcapPacket \<Rightarrow> callback_client \<Rightarrow> callback_client" where
  "DoSendPcapData i pkt c = EnqueueWrite (Data i (PcapPacketP pkt)) c"

definition DoSendEofLog :: "u32 \<Rightarrow> LogFilterEof \<Rightarrow> callback_client \<Rightarrow> callback_client" where
  "DoSendEofLog i eof c = EnqueueWrite (Eof i (LogT eof)) c"

definition DoSendEofPcap :: "u32 \<Rightarrow> PcapStats \<Rightarrow> callback_client \<Rightarrow> callback_client" where
  "DoSendEofPcap i st c = EnqueueWrite (Eof i (PcapT st)) c"

definition DoSendExecData :: "u32 \<Rightarrow> ExecChunk \<Rightarrow> callback_client \<Rightarrow> callback_client" where
  "DoSendExecData i chunk c = EnqueueWrite (Data i (ExecChunkP chunk)) c"

definition DoSendEofExec :: "u32 \<Rightarrow> ExecExit \<Rightarrow> callback_client \<Rightarrow> callback_client" where
  "DoSendEofExec i ex c = EnqueueWrite (Eof i (ExecT ex)) c"

text \<open>The client is the \<open>TaskContext\<close> of its tasks.\<close>

definition client_context :: "callback_client TaskContext" where
  "client_context = \<lparr>SendLogData = DoSendLogData, SendEofLog = DoSendEofLog,
     SendPcapData = DoSendPcapData, SendEofPcap = DoSendEofPcap, SendError = DoSendError,
     SendExecData = DoSendExecData, SendEofExec = DoSendEofExec\<rparr>"

section \<open>The feature gate\<close>

definition IsTaskAllowed :: "FeatureToggles \<Rightarrow> Kind \<Rightarrow> bool" where
  "IsTaskAllowed toggles k =
     (if \<not> enabled toggles then False
      else case k of
        kLogFilter \<Rightarrow> enable_log_filter toggles
      | kPcap \<Rightarrow> enable_pcap toggles
      | kExec \<Rightarrow> enable_exec toggles)"

definition RestrictedFeatures :: FeatureToggles where
  "RestrictedFeatures =
     \<lparr>enabled = False, enable_log_filter = False, enable_pcap = False, enable_exec = False\<rparr>"

definition cancel_task :: "task_ptr \<Rightarrow> callback_client \<Rightarrow> callback_client" where
  "cancel_task p c = c\<lparr>heap := (heap c)(p := RequestCancel (heap c p))\<rparr>"

definition ptr_op :: "callback_client \<Rightarrow> task_ptr \<Rightarrow> u32" where
  "ptr_op c p = op_id (heap c p)"

definition ptr_allowed :: "callback_client \<Rightarrow> task_ptr \<Rightarrow> bool" where
  "ptr_allowed c p = IsTaskAllowed (active_features c) (kind (heap c p))"

text \<open>The pass over \<open>task_queue_\<close>: what stays queued and the operations dropped from it.\<close>

definition drop_queued :: "callback_client \<Rightarrow> callback_client \<times> u32 list" where
  "drop_queued c =
     (let dropped = filter (\<lambda>p. p \<noteq> nullptr \<and> \<not> ptr_allowed c p) (task_queue c);
          ops = map (ptr_op c) dropped
      in (c\<lparr>task_queue := filter (\<lambda>p. p \<noteq> nullptr \<and> ptr_allowed c p) (task_queue c),
            tasks := fold AList.delete ops (tasks c)\<rparr>, ops))"

text \<open>The pass over \<open>tasks_\<close>: the running task is asked to stop, any other is dropped.\<close>

definition drop_tabled :: "callback_client \<Rightarrow> callback_client \<times> u32 list" where
  "drop_tabled c =
     (let is_current = (\<lambda>p. current_task c \<noteq> nullptr \<and> p = current_task c);
          keep = (\<lambda>p. p \<noteq> nullptr \<and> (ptr_allowed c p \<or> is_current p));
          dropped = filter (\<lambda>(k, p). p \<noteq> nullptr \<and> \<not> ptr_allowed c p \<and> \<not> is_current p) (tasks c);
          c1 = (if \<exists>(k, p) \<in> set (tasks c). p \<noteq> nullptr \<and> \<not> ptr_allowed c p \<and> is_current p
                then cancel_task (current_task c) c else c)
      in (c1\<lparr>tasks := filter (\<lambda>(k, p). keep p) (tasks c)\<rparr>, map (\<lambda>(k, p). ptr_op c p) dropped))"

text \<open>The critical section of \<open>ApplyFeatureUpdate\<close>, and the operations to be reported after it.\<close>

definition ApplyFeatureUpdate_locked ::
  "FeatureToggles \<Rightarrow> callback_client \<Rightarrow> callback_client \<times> u32 list" where
  "ApplyFeatureUpdate_locked toggles c =
     (if active_features c = toggles then (c, [])
      else
        (let c0 = c\<lparr>active_features := toggles\<rparr>;
             (c1, ops1) = drop_queued c0;
             (c2, ops2) = drop_tabled c1;
             c3 = (if current_task c2 \<noteq> nullptr \<and> \<not> ptr_allowed c2 (current_task c2)
                   then cancel_task (current_task c2) c2 else c2)
         in (c3, ops1 @ ops2)))"

definition unauthorized :: "u32 \<Rightarrow> AgentToServer" where
  "unauthorized i = Error i ''UNAUTHORIZED'' kAuthorizationErrorMessage"

definition ApplyFeatureUpdate :: "FeatureToggles \<Rightarrow> callback_client \<Rightarrow> callback_client" where
  "ApplyFeatureUpdate toggles c =
     (let (c1, ops) = ApplyFeatureUpdate_locked toggles c
      in sends (map unauthorized ops) c1)"

text \<open>The toggles an authorization event selects.\<close>

definition event_toggles :: "AuthStateChangedEvent \<Rightarrow> callback_client \<Rightarrow> FeatureToggles" where
  "event_toggles ev c =
     (if event_state ev = State_kOnline then requested_features c else RestrictedFeatures)"

definition OnAuthStateChanged :: "AuthStateChangedEvent \<Rightarrow> callback_client \<Rightarrow> callback_client" where
  "OnAuthStateChanged ev c = ApplyFeatureUpdate (event_toggles ev c) c"

section \<open>Starting an operation\<close>

text \<open>
  The guards of \<open>HandleStartOp\<close> up to the end of the first critical section: a rejection reason
  or the task that was constructed.
\<close>

definition StartOp_check :: "StartOp \<Rightarrow> callback_client \<Rightarrow> string + Task" where
  "StartOp_check start c =
     (let i = meta_op_id start; features = active_features c; requested = requested_features c
      in if i = 0 then Inl ''missing op_id''
         else if drain_mode c then Inl ''draining''
         else if map_of (tasks c) i \<noteq> None then Inl ''duplicate op_id''
         else if \<not> enabled features then
           Inl (if enabled requested then kAuthorizationDisabledReason else kFeaturesDisabledReason)
         else (case start_spec start of
             LogFilterS spec \<Rightarrow>
               (if \<not> enable_log_filter requested then Inl kLogFilterDisabledReason
                else if \<not> enable_log_filter features then Inl kAuthorizationDisabledReason
                else Inr (make_LogFilterTask i spec (log_options c)))
           | PcapS spec \<Rightarrow>
               (if \<not> enable_pcap requested then Inl kPcapDisabledReason
                else if \<not> enable_pcap features then Inl kAuthorizationDisabledReason
                else Inr (make_PcapTask i spec (log_options c)))
           | ExecS spec \<Rightarrow>
               (if \<not> enable_exec requested then Inl kExecDisabledReason
                else if \<not> enable_exec features then Inl kAuthorizationDisabledReason
                else Inr (make_ExecTask i spec))
           | SPEC_NOT_SET \<Rightarrow> Inl ''unsupported operation''))"

text \<open>Validation happens between the two critical sections.\<close>

definition StartOp_validate :: "Task \<Rightarrow> string option" where
  "StartOp_validate t =
     (case Validate (body t) of
        (True, _) \<Rightarrow> None
      | (False, reason) \<Rightarrow> Some (if reason = '''' then ''invalid parameters'' else reason))"

text \<open>The second critical section: the gate is consulted again, then the task is filed and queued.\<close>

definition StartOp_commit :: "Task \<Rightarrow> callback_client \<Rightarrow> string option \<times> callback_client" where
  "StartOp_commit t c =
     (let features = active_features c
      in if \<not> IsTaskAllowed features (kind t) then
           (Some (if \<not> enabled features \<and> enabled (requested_features c)
                  then kAuthorizationDisabledReason else kFeaturesDisabledReason), c)
         else
           (let p = next_ptr c
            in (None, c\<lparr>heap := (heap c)(p := t), next_ptr := Suc p,
                        tasks := AList.update (op_id t) p (tasks c),
                        task_queue := task_queue c @ [p]\<rparr>)))"

definition HandleStartOp :: "StartOp \<Rightarrow> callback_client \<Rightarrow> callback_client" where
  "HandleStartOp start c =
     (let i = meta_op_id start
      in case StartOp_check start c of
           Inl reason \<Rightarrow> SendAck i False reason c
         | Inr t \<Rightarrow>
             (case StartOp_validate t of
                Some reason \<Rightarrow> SendAck i False reason c
              | None \<Rightarrow>
                  (case StartOp_commit t c of
                     (Some reason, c1) \<Rightarrow> SendAck i False reason c1
                   | (None, c1) \<Rightarrow> SendAck i True '''' c1)))"

section \<open>Cancelling\<close>

definition cancelled_error :: "u32 \<Rightarrow> AgentToServer" where
  "cancelled_error i = Error i ''CANCELLED'' ''operation cancelled''"

definition HandleCancel_locked :: "u32 \<Rightarrow> callback_client \<Rightarrow> callback_client \<times> u32 list" where
  "HandleCancel_locked i c =
     (case map_of (tasks c) i of
        None \<Rightarrow> (c, [])
      | Some p \<Rightarrow>
          (if p = nullptr then (c\<lparr>tasks := AList.delete i (tasks c)\<rparr>, [])
           else if current_task c \<noteq> nullptr \<and> current_task c = p then (cancel_task p c, [])
           else if p \<in> set (task_queue c) then
             (cancel_task p (c\<lparr>task_queue := remove1 p (task_queue c),
                               tasks := AList.delete i (tasks c)\<rparr>), [i])
           else (c, [])))"

definition HandleCancel :: "u32 \<Rightarrow> callback_client \<Rightarrow> callback_client" where
  "HandleCancel i c =
     (let (c1, ops) = HandleCancel_locked i c in sends (map cancelled_error ops) c1)"

definition cancel_tasks :: "task_ptr list \<Rightarrow> callback_client \<Rightarrow> callback_client" where
  "cancel_tasks ps c = fold cancel_task ps c"

text \<open>
  The critical section of \<open>HandleShutdown\<close>. The operations of the queue are recorded first; the
  pass over \<open>tasks_\<close> then records every entry but the current one.
\<close>

definition HandleShutdown_locked :: "bool \<Rightarrow> callback_client \<Rightarrow> callback_client \<times> u32 list" where
  "HandleShutdown_locked drain c =
     (let c0 = c\<lparr>drain_mode := drain\<rparr>
      in if drain then (c0, [])
         else
           (let c1 = (if current_task c0 \<noteq> nullptr then cancel_task (current_task c0) c0 else c0);
                queued = filter (\<lambda>p. p \<noteq> nullptr) (task_queue c1);
                c2 = (cancel_tasks queued c1)\<lparr>task_queue := []\<rparr>;
                is_current = (\<lambda>p. current_task c2 \<noteq> nullptr \<and> p = current_task c2);
                dropped = map snd (filter (\<lambda>(k, p). p \<noteq> nullptr \<and> \<not> is_current p) (tasks c2));
                c3 = (cancel_tasks dropped c2)
                       \<lparr>tasks := filter (\<lambda>(k, p). p \<noteq> nullptr \<and> is_current p) (tasks c2)\<rparr>
            in (c3, map (ptr_op c) queued @ map (ptr_op c) dropped)))"

definition HandleShutdown :: "bool \<Rightarrow> callback_client \<Rightarrow> callback_client" where
  "HandleShutdown drain c =
     (let (c1, ops) = HandleShutdown_locked drain c
      in if drain then c1
         else (CancelStream (sends (map cancelled_error ops) c1))\<lparr>c_running := False\<rparr>)"

definition CancelAllLocked_table :: "callback_client \<Rightarrow> callback_client \<times> u32 list" where
  "CancelAllLocked_table c =
     (let is_current = (\<lambda>p. current_task c \<noteq> nullptr \<and> p = current_task c);
          all = map snd (filter (\<lambda>(k, p). p \<noteq> nullptr) (tasks c));
          dropped = filter (\<lambda>p. \<not> is_current p) all
      in ((cancel_tasks all c)
            \<lparr>tasks := filter (\<lambda>(k, p). p \<noteq> nullptr \<and> is_current p) (tasks c), task_queue := []\<rparr>,
          map (ptr_op c) dropped))"

text \<open>\<open>CancelAllLocked\<close> sends while the lock is held.\<close>

definition CancelAllLocked :: "string \<Rightarrow> callback_client \<Rightarrow> callback_client" where
  "CancelAllLocked reason c =
     (let (c1, ops) = CancelAllLocked_table c
      in sends (map (\<lambda>i. Error i ''CANCELLED'' reason) ops) c1)"

definition HandleStreamClosed :: "Status \<Rightarrow> callback_client \<Rightarrow> callback_client" where
  "HandleStreamClosed status c = CancelAllLocked ''stream closed'' c"

definition HandleStreamMessage :: "ServerToAgent \<Rightarrow> bool \<Rightarrow> callback_client \<Rightarrow> callback_client" where
  "HandleStreamMessage msg ok c =
     (if \<not> ok then c
      else case msg of
        Ping i sq \<Rightarrow> EnqueueWrite (MakePong (agent_id c) sq) c
      | Start start \<Rightarrow> HandleStartOp start c
      | Cancel i \<Rightarrow> HandleCancel i c
      | Shutdown drain \<Rightarrow> HandleShutdown drain c
      | MSG_NOT_SET \<Rightarrow> c)"

section \<open>The worker\<close>

text \<open>The predicate of \<open>task_cv_.wait\<close>, and the test that leaves the loop.\<close>

definition Worker_ready :: "callback_client \<Rightarrow> bool" where
  "Worker_ready c \<longleftrightarrow> stop_worker c \<or> \<not> c_running c \<or> task_queue c \<noteq> []"

definition Worker_break :: "callback_client \<Rightarrow> bool" where
  "Worker_break c \<longleftrightarrow> (stop_worker c \<or> \<not> c_running c) \<and> task_queue c = []"

definition Worker_take :: "callback_client \<Rightarrow> callback_client" where
  "Worker_take c = c\<lparr>task_queue := tl (task_queue c), current_task := hd (task_queue c)\<rparr>"

definition Worker_finish :: "task_ptr \<Rightarrow> callback_client \<Rightarrow> callback_client" where
  "Worker_finish p c =
     (let c1 = (if p \<noteq> nullptr then c\<lparr>tasks := AList.delete (ptr_op c p) (tasks c)\<rparr> else c);
          c2 = c1\<lparr>current_task := nullptr\<rparr>
      in if drain_mode c2 \<and> task_queue c2 = [] then c2\<lparr>c_running := False\<rparr> else c2)"

definition RunTask :: "(task_ptr \<Rightarrow> callback_client \<Rightarrow> callback_client) \<Rightarrow> task_ptr \<Rightarrow>
    callback_client \<Rightarrow> callback_client" where
  "RunTask task_run p c = (if p \<noteq> nullptr then task_run p c else c)"

text \<open>
  The worker run alone, with \<open>task_run\<close> for \<open>Task::Run\<close>. \<open>None\<close>: the loop has not ended, because
  the fuel is used up or because the worker waits and no other thread acts.
\<close>

fun WorkerLoop :: "nat \<Rightarrow> (task_ptr \<Rightarrow> callback_client \<Rightarrow> callback_client) \<Rightarrow> callback_client \<Rightarrow>
    callback_client option" where
  "WorkerLoop 0 task_run c = None"
| "WorkerLoop (Suc n) task_run c =
     (if \<not> c_running c then Some c
      else if \<not> Worker_ready c then None
      else if Worker_break c then Some c
      else if task_queue c = [] then WorkerLoop n task_run c
      else
        (let c1 = Worker_take c; p = current_task c1
         in WorkerLoop n task_run (Worker_finish p (RunTask task_run p c1))))"

section \<open>Life cycle of the client\<close>

definition ShouldStreamContinue :: "callback_client \<Rightarrow> bool" where
  "ShouldStreamContinue c = (if \<not> c_running c then False else if \<not> env_run c then False else True)"

definition ShouldContinueInternal :: "callback_client \<Rightarrow> bool" where
  "ShouldContinueInternal c = (if \<not> c_running c then False else env_run c)"

definition client_stream_options :: "(nat \<Rightarrow> int) \<Rightarrow> callback_client stream_options" where
  "client_stream_options backoff =
     ControlStreamClient_options \<lparr>should_run = Some ShouldStreamContinue, backoff_fn = Some backoff\<rparr>"

definition client_callbacks :: "callback_client stream_callbacks" where
  "client_callbacks =
     SetStreamClosedCallback (Some HandleStreamClosed)
       (SetMessageCallback (Some HandleStreamMessage)
         (SetReadyCallback (Some (\<lambda>c. EnqueueWrite (MakeHello (agent_id c)) c))
           \<lparr>ready_callback = None, message_callback = None, stream_closed_callback = None\<rparr>))"

text \<open>
  The constructor. \<open>tmp\<close> is what \<open>temp_directory_path\<close> returns (\<open>None\<close> on error), \<open>last_ev\<close> the
  last authorization event on the bus.
\<close>

definition new_ControlCallbackClient ::
  "string \<Rightarrow> LogOptions \<Rightarrow> FeatureToggles \<Rightarrow> string option \<Rightarrow> AuthStateChangedEvent option \<Rightarrow>
   callback_client" where
  "new_ControlCallbackClient i opts features tmp last_ev =
     (let opts1 = (if temp_dir opts = ''''
                   then (case tmp of None \<Rightarrow> opts | Some d \<Rightarrow> opts\<lparr>temp_dir := d\<rparr>) else opts);
          opts2 = (if chunk_size opts1 = 0 then opts1\<lparr>chunk_size := 64 * 1024\<rparr> else opts1);
          c = \<lparr>s_running = False, attempt = 0, pending_writes = [], current_write = None,
               write_in_flight = False, reactor = None, next_reactor = 0,
               done_status = (\<lambda>_. None), io_log = [], enqueued = [], slept = [],
               agent_id = i, log_options = opts2, env_run = True, c_running = False,
               heap = (\<lambda>_. make_ExecTask 0 \<lparr>cmd = '''', ex_max_output_bytes = 0\<rparr>),
               next_ptr = 1, task_queue = [], tasks = [], current_task = nullptr,
               drain_mode = False, stop_worker = False,
               requested_features = features, active_features = features\<rparr>
      in case last_ev of
           Some ev \<Rightarrow> OnAuthStateChanged ev c
         | None \<Rightarrow> ApplyFeatureUpdate (active_features c) c)"

text \<open>\<open>join\<close> is what the worker does until it has left its loop.\<close>

definition ShutdownWorker :: "(callback_client \<Rightarrow> callback_client) \<Rightarrow> callback_client \<Rightarrow> callback_client" where
  "ShutdownWorker join c = (join (c\<lparr>stop_worker := True\<rparr>))\<lparr>stop_worker := False\<rparr>"

definition Client_Run ::
  "nat \<Rightarrow> (nat \<Rightarrow> int) \<Rightarrow> (reactor_id \<Rightarrow> callback_client \<Rightarrow> callback_client) \<Rightarrow>
   (callback_client \<Rightarrow> callback_client) \<Rightarrow> callback_client \<Rightarrow> callback_client option" where
  "Client_Run fuel backoff during join c =
     (case Run fuel (client_stream_options backoff) client_callbacks during (c\<lparr>c_running := True\<rparr>) of
        None \<Rightarrow> None
      | Some c1 \<Rightarrow> Some (ShutdownWorker join (c1\<lparr>c_running := False\<rparr>)))"

text \<open>
  \<open>Stop\<close>; that it ends by unsubscribing from the bus, which is not part of the client, is
  \<open>unsubscribe_client\<close> in \<open>Gate_Composition\<close>.
\<close>

definition Client_Stop :: "(callback_client \<Rightarrow> callback_client) \<Rightarrow> callback_client \<Rightarrow> callback_client" where
  "Client_Stop join c = ShutdownWorker join (Stop (c\<lparr>c_running := False\<rparr>))"

section \<open>Sending leaves the client alone\<close>

lemma client_part_eq:
  assumes "stream_client.more c = stream_client.more d"
  shows "agent_id c = agent_id d" "log_options c = log_options d" "env_run c = env_run d"
    "c_running c = c_running d" "heap c = heap d" "next_ptr c = next_ptr d"
    "task_queue c = task_queue d" "tasks c = tasks d" "current_task c = current_task d"
    "drain_mode c = drain_mode d" "stop_worker c = stop_worker d"
    "requested_features c = requested_features d" "active_features c = active_features d"
  using assms by (cases c; cases d; simp)+

lemma sends_more [simp]: "stream_client.more (sends ms c) = stream_client.more c"
  unfolding sends_def by (induction ms arbitrary: c) simp_all

lemmas EnqueueWrite_client [simp] =
  client_part_eq [OF EnqueueWrite_frame(7)]

lemmas sends_client [simp] = client_part_eq [OF sends_more]

lemmas CancelStream_client [simp] = client_part_eq [OF CancelStream_frame(8)]

lemma enqueued_sends [simp]: "enqueued (sends ms c) = enqueued c @ ms"
  by (simp add: sends_def stream_sink.sent_fold)

lemma sends_Nil [simp]: "sends [] c = c"
  by (simp add: sends_def)

lemma cancel_task_frame [simp]:
  "tasks (cancel_task p c) = tasks c" "task_queue (cancel_task p c) = task_queue c"
  "current_task (cancel_task p c) = current_task c" "next_ptr (cancel_task p c) = next_ptr c"
  "active_features (cancel_task p c) = active_features c" "enqueued (cancel_task p c) = enqueued c"
  "requested_features (cancel_task p c) = requested_features c"
  "drain_mode (cancel_task p c) = drain_mode c" "c_running (cancel_task p c) = c_running c"
  "stop_worker (cancel_task p c) = stop_worker c" "env_run (cancel_task p c) = env_run c"
  "ptr_op (cancel_task p c) q = ptr_op c q" "ptr_allowed (cancel_task p c) q = ptr_allowed c q"
  "kind (heap (cancel_task p c) q) = kind (heap c q)" "op_id (heap (cancel_task p c) q) = op_id (heap c q)"
  by (simp_all add: cancel_task_def ptr_op_def ptr_allowed_def)

lemma cancel_requested_cancel_task [simp]:
  "cancel_requested (heap (cancel_task p c) q) \<longleftrightarrow> q = p \<or> cancel_requested (heap c q)"
  by (simp add: cancel_task_def)

lemma cancel_tasks_frame [simp]:
  "tasks (cancel_tasks ps c) = tasks c" "task_queue (cancel_tasks ps c) = task_queue c"
  "current_task (cancel_tasks ps c) = current_task c" "next_ptr (cancel_tasks ps c) = next_ptr c"
  "active_features (cancel_tasks ps c) = active_features c" "enqueued (cancel_tasks ps c) = enqueued c"
  "requested_features (cancel_tasks ps c) = requested_features c"
  "drain_mode (cancel_tasks ps c) = drain_mode c" "c_running (cancel_tasks ps c) = c_running c"
  "stop_worker (cancel_tasks ps c) = stop_worker c" "env_run (cancel_tasks ps c) = env_run c"
  "kind (heap (cancel_tasks ps c) q) = kind (heap c q)" "op_id (heap (cancel_tasks ps c) q) = op_id (heap c q)"
  unfolding cancel_tasks_def by (induction ps arbitrary: c; simp)+

lemma cancel_requested_cancel_tasks [simp]:
  "cancel_requested (heap (cancel_tasks ps c) q) \<longleftrightarrow> q \<in> set ps \<or> cancel_requested (heap c q)"
  unfolding cancel_tasks_def by (induction ps arbitrary: c) auto

interpretation client_ctx: task_context client_context enqueued
  by unfold_locales
     (simp_all add: client_context_def DoSendLogData_def DoSendEofLog_def DoSendPcapData_def
        DoSendEofPcap_def DoSendError_def DoSendExecData_def DoSendEofExec_def)

section \<open>The table invariant\<close>

text \<open>
  The queue and the table agree: every tracked operation is queued or running, every queued task
  and the running one are tracked under their own identifier, identifiers and queued addresses
  are not repeated.
\<close>

definition table_inv :: "callback_client \<Rightarrow> bool" where
  "table_inv c \<longleftrightarrow>
     0 < next_ptr c \<and>
     distinct (map fst (tasks c)) \<and>
     distinct (task_queue c) \<and>
     (\<forall>(k, p) \<in> set (tasks c). k \<noteq> 0 \<and> 0 < p \<and> p < next_ptr c \<and> op_id (heap c p) = k \<and>
        (p \<in> set (task_queue c) \<or> p = current_task c)) \<and>
     (\<forall>p \<in> set (task_queue c). (op_id (heap c p), p) \<in> set (tasks c)) \<and>
     (current_task c \<noteq> nullptr \<longrightarrow>
        (op_id (heap c (current_task c)), current_task c) \<in> set (tasks c)) \<and>
     current_task c \<notin> set (task_queue c)"

text \<open>
  The gate invariant: only tasks of enabled kinds are queued, and a running task whose kind has
  been disabled has been asked to stop.
\<close>

definition gate_inv :: "callback_client \<Rightarrow> bool" where
  "gate_inv c \<longleftrightarrow>
     (\<forall>p \<in> set (task_queue c). ptr_allowed c p) \<and>
     (current_task c \<noteq> nullptr \<and> \<not> ptr_allowed c (current_task c) \<longrightarrow>
        cancel_requested (heap c (current_task c)))"

definition client_inv :: "callback_client \<Rightarrow> bool" where
  "client_inv c \<longleftrightarrow> table_inv c \<and> gate_inv c"

lemma fold_delete: "fold AList.delete ks al = filter (\<lambda>(k, p). k \<notin> set ks) al"
proof (induction ks arbitrary: al)
  case Nil
  show ?case by (simp add: case_prod_beta)
next
  case (Cons k ks)
  then show ?case by (auto simp: AList.delete_eq case_prod_beta intro!: filter_cong)
qed

lemma update_fresh: "k \<notin> fst ` set al \<Longrightarrow> AList.update k v al = al @ [(k, v)]"
  by (induction al) auto

lemma table_keys_unique:
  "table_inv c \<Longrightarrow> (k, p) \<in> set (tasks c) \<Longrightarrow> (k, q) \<in> set (tasks c) \<Longrightarrow> p = q"
  unfolding table_inv_def by (meson eq_key_imp_eq_value)

lemma table_inv_sends [simp]: "table_inv (sends ms c) = table_inv c"
  by (simp add: table_inv_def)

lemma gate_inv_sends [simp]: "gate_inv (sends ms c) = gate_inv c"
  by (simp add: gate_inv_def ptr_allowed_def)

lemma client_inv_sends [simp]: "client_inv (sends ms c) = client_inv c"
  by (simp add: client_inv_def)

lemma client_inv_EnqueueWrite [simp]: "client_inv (EnqueueWrite m c) = client_inv c"
  by (simp add: client_inv_def table_inv_def gate_inv_def ptr_allowed_def)

lemma client_inv_cancel_task [simp]: "client_inv c \<Longrightarrow> client_inv (cancel_task p c)"
  by (auto simp: client_inv_def table_inv_def gate_inv_def)

text \<open>Every tracked entry is determined by its address.\<close>

lemma table_entry:
  "table_inv c \<Longrightarrow> (k, p) \<in> set (tasks c) \<Longrightarrow>
     k = ptr_op c p \<and> k \<noteq> 0 \<and> p \<noteq> nullptr \<and> p < next_ptr c \<and>
     (p \<in> set (task_queue c) \<or> p = current_task c)"
  by (auto simp: table_inv_def ptr_op_def)

lemma table_queued: "table_inv c \<Longrightarrow> p \<in> set (task_queue c) \<Longrightarrow> (ptr_op c p, p) \<in> set (tasks c)"
  by (auto simp: table_inv_def ptr_op_def)

lemma table_op_inj:
  assumes "table_inv c" "(k, p) \<in> set (tasks c)" "(l, q) \<in> set (tasks c)" "ptr_op c p = ptr_op c q"
  shows "p = q"
  using assms table_entry table_keys_unique by metis

section \<open>Every critical section keeps the invariant\<close>

lemma table_invI:
  assumes "0 < next_ptr c" and "distinct (map fst (tasks c))" and "distinct (task_queue c)"
    and "\<And>k p. (k, p) \<in> set (tasks c) \<Longrightarrow> k = ptr_op c p \<and> k \<noteq> 0 \<and> p \<noteq> nullptr \<and> p < next_ptr c \<and>
           (p \<in> set (task_queue c) \<or> p = current_task c)"
    and "\<And>p. p \<in> set (task_queue c) \<Longrightarrow> (ptr_op c p, p) \<in> set (tasks c)"
    and "current_task c \<noteq> nullptr \<Longrightarrow> (ptr_op c (current_task c), current_task c) \<in> set (tasks c)"
    and "current_task c \<notin> set (task_queue c)"
  shows "table_inv c"
  using assms by (auto simp: table_inv_def ptr_op_def)

lemma table_current:
  "table_inv c \<Longrightarrow> current_task c \<noteq> nullptr \<Longrightarrow> (ptr_op c (current_task c), current_task c) \<in> set (tasks c)"
  by (auto simp: table_inv_def ptr_op_def)

text \<open>Removing one tracked task from the queue or from the current slot, and from the table.\<close>

lemma table_inv_remove:
  assumes tab: "table_inv c" and mem: "(ptr_op c p, p) \<in> set (tasks c)"
    and t: "tasks c' = AList.delete (ptr_op c p) (tasks c)"
    and q: "distinct (task_queue c')" "set (task_queue c') = set (task_queue c) - {p}"
    and cur: "current_task c' = (if current_task c = p then nullptr else current_task c)"
    and nx: "next_ptr c' = next_ptr c" and hp: "heap c' = heap c"
  shows "table_inv c'"
proof (rule table_invI)
  have op: "ptr_op c' = ptr_op c" by (simp add: ptr_op_def hp fun_eq_iff)
  have other: "ptr_op c r \<noteq> ptr_op c p" if "(k, r) \<in> set (tasks c)" "r \<noteq> p" for k r
    using table_op_inj [OF tab that(1) mem] that(2) by auto
  have nz: "nullptr \<notin> set (task_queue c)" using tab table_queued table_entry by blast
  show "k = ptr_op c' r \<and> k \<noteq> 0 \<and> r \<noteq> nullptr \<and> r < next_ptr c' \<and>
      (r \<in> set (task_queue c') \<or> r = current_task c')" if "(k, r) \<in> set (tasks c')" for k r
    using that table_entry [OF tab, of k r] by (auto simp: t op nx q cur AList.delete_eq)
  show "(ptr_op c' r, r) \<in> set (tasks c')" if "r \<in> set (task_queue c')" for r
    using that table_queued [OF tab, of r] other [of "ptr_op c r" r] by (auto simp: t op q AList.delete_eq)
  show "(ptr_op c' (current_task c'), current_task c') \<in> set (tasks c')" if "current_task c' \<noteq> nullptr"
    using that table_current [OF tab] other [of "ptr_op c (current_task c)" "current_task c"]
    by (auto simp: t op cur AList.delete_eq split: if_splits)
  show "current_task c' \<notin> set (task_queue c')"
    using tab nz by (auto simp: cur q table_inv_def)
qed (use tab in \<open>auto simp: t q nx table_inv_def AList.delete_eq distinct_map_filter\<close>)

lemma client_inv_start:
  assumes inv: "client_inv c" and fresh: "map_of (tasks c) (op_id t) = None"
    and nz: "op_id t \<noteq> 0" and com: "StartOp_commit t c = (None, c')"
  shows "client_inv c'"
proof -
  let ?p = "next_ptr c"
  from com have al: "IsTaskAllowed (active_features c) (kind t)"
    and c': "c' = c\<lparr>heap := (heap c)(?p := t), next_ptr := Suc ?p,
        tasks := tasks c @ [(op_id t, ?p)], task_queue := task_queue c @ [?p]\<rparr>"
    using fresh by (auto simp: StartOp_commit_def Let_def update_fresh map_of_eq_None_iff split: if_splits)
  have tab: "table_inv c" and gate: "gate_inv c" using inv by (auto simp: client_inv_def)
  have old: "p \<noteq> ?p" if "(k, p) \<in> set (tasks c)" for k p using table_entry [OF tab that] by auto
  have oldq: "p \<noteq> ?p" if "p \<in> set (task_queue c)" for p using table_queued [OF tab that] old by auto
  have oldc: "current_task c \<noteq> ?p"
    using tab old by (cases "current_task c = nullptr") (auto simp: table_inv_def)
  have "table_inv c'"
    using tab fresh nz old oldq oldc
    by (auto simp: table_inv_def c' map_of_eq_None_iff less_Suc_eq)
  moreover have "gate_inv c'"
    using gate al oldq oldc by (auto simp: gate_inv_def c' ptr_allowed_def)
  ultimately show ?thesis by (simp add: client_inv_def)
qed

lemma client_inv_cancel:
  assumes inv: "client_inv c" and h: "HandleCancel_locked i c = (c', ops)"
  shows "client_inv c'"
proof (cases "map_of (tasks c) i")
  case None
  with assms show ?thesis by (simp add: HandleCancel_locked_def)
next
  case (Some p)
  have tab: "table_inv c" and gate: "gate_inv c" using inv by (auto simp: client_inv_def)
  from Some have mem: "(i, p) \<in> set (tasks c)" by (rule map_of_SomeD)
  note e = table_entry [OF tab mem]
  show ?thesis
  proof (cases "p \<in> set (task_queue c)")
    case False
    with e h Some inv show ?thesis by (auto simp: HandleCancel_locked_def)
  next
    case True
    let ?c = "c\<lparr>task_queue := remove1 p (task_queue c), tasks := AList.delete i (tasks c)\<rparr>"
    have cur: "current_task c \<noteq> p" using True tab by (auto simp: table_inv_def)
    have dis: "set (remove1 p (task_queue c)) = set (task_queue c) - {p}"
      using tab by (simp add: table_inv_def set_remove1_eq)
    from e mem have "table_inv ?c"
      by (intro table_inv_remove [OF tab, of p]) (use tab cur dis in \<open>auto simp: table_inv_def\<close>)
    moreover have "gate_inv ?c"
      using gate dis by (auto simp: gate_inv_def ptr_allowed_def)
    ultimately have "client_inv ?c" by (simp add: client_inv_def)
    with h Some e True cur show ?thesis by (auto simp: HandleCancel_locked_def)
  qed
qed

text \<open>Dropping everything but the running task, as the stream's end and a shutdown do.\<close>

lemma client_inv_clear:
  assumes inv: "client_inv c"
    and t: "tasks c' = filter (\<lambda>(k, p). p \<noteq> nullptr \<and> (current_task c \<noteq> nullptr \<and> p = current_task c)) (tasks c)"
    and q: "task_queue c' = []" and cur: "current_task c' = current_task c"
    and nx: "next_ptr c' = next_ptr c" and act: "active_features c' = active_features c"
    and hp: "\<And>p. op_id (heap c' p) = op_id (heap c p) \<and> kind (heap c' p) = kind (heap c p) \<and>
               (cancel_requested (heap c p) \<longrightarrow> cancel_requested (heap c' p))"
  shows "client_inv c'"
  using inv hp
  by (auto simp: client_inv_def table_inv_def gate_inv_def ptr_allowed_def t q cur nx act distinct_map_filter)

lemma client_inv_shutdown:
  assumes "client_inv c" and "HandleShutdown_locked drain c = (c', ops)"
  shows "client_inv c'"
proof (cases drain)
  case True
  with assms show ?thesis
    by (auto simp: HandleShutdown_locked_def client_inv_def table_inv_def gate_inv_def ptr_allowed_def)
next
  case False
  with assms(2) show ?thesis
    by (intro client_inv_clear [OF assms(1)])
       (auto simp: HandleShutdown_locked_def Let_def)
qed

lemma client_inv_cancel_all:
  assumes "client_inv c" and "CancelAllLocked_table c = (c', ops)"
  shows "client_inv c'"
  using assms(2)
  by (intro client_inv_clear [OF assms(1)]) (auto simp: CancelAllLocked_table_def Let_def)

lemma client_inv_take:
  assumes "client_inv c" and "task_queue c = p # q" and "current_task c = nullptr"
  shows "client_inv (Worker_take c)"
  using assms by (auto simp: client_inv_def table_inv_def gate_inv_def ptr_allowed_def Worker_take_def)

lemma client_inv_finish:
  assumes inv: "client_inv c" and cur: "current_task c = p" "p \<noteq> nullptr"
  shows "client_inv (Worker_finish p c)"
proof -
  let ?c = "c\<lparr>tasks := AList.delete (ptr_op c p) (tasks c), current_task := nullptr\<rparr>"
  have tab: "table_inv c" and gate: "gate_inv c" using inv by (auto simp: client_inv_def)
  have pin: "(ptr_op c p, p) \<in> set (tasks c)" using tab cur by (auto simp: table_inv_def ptr_op_def)
  have "table_inv ?c"
    by (rule table_inv_remove [OF tab pin]) (use tab cur in \<open>auto simp: table_inv_def\<close>)
  moreover have "gate_inv ?c" using gate by (auto simp: gate_inv_def ptr_allowed_def)
  ultimately have "client_inv ?c" by (simp add: client_inv_def)
  then have "client_inv (?c\<lparr>c_running := b\<rparr>)" for b
    by (simp add: client_inv_def table_inv_def gate_inv_def ptr_allowed_def)
  with \<open>client_inv ?c\<close> cur show ?thesis
    by (simp add: Worker_finish_def Let_def)
qed

definition allowed_under :: "FeatureToggles \<Rightarrow> callback_client \<Rightarrow> task_ptr \<Rightarrow> bool" where
  "allowed_under toggles c p = IsTaskAllowed toggles (kind (heap c p))"

text \<open>Where only the running task may be disallowed, the pass over the table drops nothing.\<close>

lemma drop_tabled_settled:
  assumes ok: "\<And>k p. (k, p) \<in> set (tasks c) \<Longrightarrow> p \<noteq> nullptr \<and> (ptr_allowed c p \<or> p = current_task c)"
  shows "drop_tabled c = (c, []) \<or>
    drop_tabled c = (cancel_task (current_task c) c, []) \<and> current_task c \<noteq> nullptr \<and>
      \<not> ptr_allowed c (current_task c)"
proof -
  have keep: "filter (\<lambda>(k, p). p \<noteq> nullptr \<and> (ptr_allowed c p \<or> current_task c \<noteq> nullptr \<and> p = current_task c)) (tasks c) = tasks c"
    by (rule filter_True) (auto dest: ok)
  have none: "filter (\<lambda>(k, p). p \<noteq> nullptr \<and> \<not> ptr_allowed c p \<and> \<not> (current_task c \<noteq> nullptr \<and> p = current_task c)) (tasks c) = []"
    by (rule filter_False) (auto dest: ok)
  let ?B = "\<exists>(k, p) \<in> set (tasks c). p \<noteq> nullptr \<and> \<not> ptr_allowed c p \<and>
     (current_task c \<noteq> nullptr \<and> p = current_task c)"
  have same: "(if b then cancel_task q c else c)\<lparr>tasks := tasks c\<rparr> = (if b then cancel_task q c else c)" for b q
    by (simp add: cancel_task_def)
  have eq: "drop_tabled c = (if ?B then cancel_task (current_task c) c else c, [])"
    unfolding drop_tabled_def Let_def keep none same by simp
  show ?thesis
  proof (cases ?B)
    case True
    then have "current_task c \<noteq> nullptr" "\<not> ptr_allowed c (current_task c)" by auto
    with eq True show ?thesis by simp
  next
    case False
    with eq show ?thesis by simp
  qed
qed

text \<open>
  What a change of the toggles does, under the table invariant: the disallowed queued tasks leave
  the queue and the table and are reported once each; the second pass over the table finds
  nothing left to drop; the running task, if disallowed, is asked to stop.
\<close>

lemma ApplyFeatureUpdate_locked_char:
  assumes tab: "table_inv c" and ne: "active_features c \<noteq> toggles"
    and app: "ApplyFeatureUpdate_locked toggles c = (c', ops)"
  shows "task_queue c' = filter (allowed_under toggles c) (task_queue c)"
    and "ops = map (ptr_op c) (filter (\<lambda>p. \<not> allowed_under toggles c p) (task_queue c))"
    and "tasks c' = filter (\<lambda>(k, p). k \<notin> set ops) (tasks c)"
    and "\<And>p. op_id (heap c' p) = op_id (heap c p) \<and> kind (heap c' p) = kind (heap c p)"
    and "\<And>p. cancel_requested (heap c' p) \<longleftrightarrow> cancel_requested (heap c p) \<or>
           (p = current_task c \<and> p \<noteq> nullptr \<and> \<not> allowed_under toggles c p)"
    and "current_task c' = current_task c" and "next_ptr c' = next_ptr c"
    and "active_features c' = toggles" and "enqueued c' = enqueued c" and "drain_mode c' = drain_mode c"
    and "requested_features c' = requested_features c" and "c_running c' = c_running c"
    and "stop_worker c' = stop_worker c"
proof -
  let ?bad = "filter (\<lambda>p. \<not> allowed_under toggles c p) (task_queue c)"
  let ?ops = "map (ptr_op c) ?bad"
  let ?c0 = "c\<lparr>active_features := toggles\<rparr>"
  have al: "ptr_allowed ?c0 p = allowed_under toggles c p" for p
    by (simp add: ptr_allowed_def allowed_under_def)
  have nz: "p \<noteq> nullptr" if "p \<in> set (task_queue c)" for p
    using table_entry [OF tab table_queued [OF tab that]] by simp
  define c1 where "c1 = ?c0\<lparr>task_queue := filter (allowed_under toggles c) (task_queue c),
      tasks := filter (\<lambda>(k, p). k \<notin> set ?ops) (tasks c)\<rparr>"
  have d1: "drop_queued ?c0 = (c1, ?ops)"
    using nz by (auto simp: drop_queued_def Let_def al ptr_op_def c1_def fold_delete cong: filter_cong)
  have al1: "ptr_allowed c1 p = allowed_under toggles c p" for p
    by (simp add: ptr_allowed_def allowed_under_def c1_def)
  have cur1: "current_task c1 = current_task c" by (simp add: c1_def)
  have ok: "p \<noteq> nullptr \<and> (ptr_allowed c1 p \<or> p = current_task c1)" if "(k, p) \<in> set (tasks c1)" for k p
    using that table_entry [OF tab, of k p] unfolding al1 cur1 by (auto simp: c1_def)
  have "drop_tabled c1 = (c1, []) \<or> drop_tabled c1 = (cancel_task (current_task c) c1, []) \<and>
      current_task c \<noteq> nullptr \<and> \<not> allowed_under toggles c (current_task c)"
    using drop_tabled_settled [of c1] ok unfolding al1 cur1 by blast
  then obtain c2 where c2: "drop_tabled c1 = (c2, [])" "c2 = c1 \<or> c2 = cancel_task (current_task c) c1 \<and>
      current_task c \<noteq> nullptr \<and> \<not> allowed_under toggles c (current_task c)"
    by blast
  have c': "ops = ?ops" "c' = (if current_task c2 \<noteq> nullptr \<and> \<not> ptr_allowed c2 (current_task c2)
       then cancel_task (current_task c2) c2 else c2)"
    using app ne d1 c2(1) by (auto simp: ApplyFeatureUpdate_locked_def Let_def)
  have f: "c' = c1 \<and> \<not> (current_task c \<noteq> nullptr \<and> \<not> allowed_under toggles c (current_task c)) \<or>
      (current_task c \<noteq> nullptr \<and> \<not> allowed_under toggles c (current_task c) \<and>
       (c' = cancel_task (current_task c) c1 \<or> c' = cancel_task (current_task c) (cancel_task (current_task c) c1)))"
    using c2(2) c'(2) al1 cur1 by (elim disjE) (auto split: if_splits)
  show "task_queue c' = filter (allowed_under toggles c) (task_queue c)"
    and "tasks c' = filter (\<lambda>(k, p). k \<notin> set ops) (tasks c)"
    and "current_task c' = current_task c" and "next_ptr c' = next_ptr c"
    and "active_features c' = toggles" and "enqueued c' = enqueued c" and "drain_mode c' = drain_mode c"
    and "requested_features c' = requested_features c" and "c_running c' = c_running c"
    and "stop_worker c' = stop_worker c"
    using f by (auto simp: c1_def c'(1))
  show "ops = ?ops" by (rule c'(1))
  show "op_id (heap c' p) = op_id (heap c p) \<and> kind (heap c' p) = kind (heap c p)" for p
    using f by (auto simp: c1_def)
  show "cancel_requested (heap c' p) \<longleftrightarrow> cancel_requested (heap c p) \<or>
           (p = current_task c \<and> p \<noteq> nullptr \<and> \<not> allowed_under toggles c p)" for p
    using f by (auto simp: c1_def)
qed

lemma client_inv_apply:
  assumes inv: "client_inv c" and app: "ApplyFeatureUpdate_locked toggles c = (c', ops)"
  shows "client_inv c'"
proof (cases "active_features c = toggles")
  case True
  with assms show ?thesis by (simp add: ApplyFeatureUpdate_locked_def)
next
  case False
  have tab: "table_inv c" using inv by (simp add: client_inv_def)
  note ch = ApplyFeatureUpdate_locked_char [OF tab False app]
  have op: "ptr_op c' p = ptr_op c p" for p using ch(4) by (simp add: ptr_op_def)
  have al: "ptr_allowed c' p = allowed_under toggles c p" for p
    using ch(4) by (simp add: ptr_allowed_def allowed_under_def ch(8))
  have inops: "k \<in> set ops \<longleftrightarrow> p \<in> set (task_queue c) \<and> \<not> allowed_under toggles c p"
    if "(k, p) \<in> set (tasks c)" for k p
    using table_entry [OF tab that] table_op_inj [OF tab that table_queued [OF tab]]
    by (auto simp: ch(2))
  have "table_inv c'"
  proof (rule table_invI)
    show "k = ptr_op c' p \<and> k \<noteq> 0 \<and> p \<noteq> nullptr \<and> p < next_ptr c' \<and>
        (p \<in> set (task_queue c') \<or> p = current_task c')" if "(k, p) \<in> set (tasks c')" for k p
      using that table_entry [OF tab, of k p] inops [of k p] by (auto simp: ch(1,3,6,7) op)
    show "(ptr_op c' p, p) \<in> set (tasks c')" if "p \<in> set (task_queue c')" for p
      using that table_queued [OF tab, of p] inops [of "ptr_op c p" p] by (auto simp: ch(1,3) op)
    show "(ptr_op c' (current_task c'), current_task c') \<in> set (tasks c')" if "current_task c' \<noteq> nullptr"
      using that table_current [OF tab] inops [of "ptr_op c (current_task c)" "current_task c"] tab
      by (auto simp: ch(3,6) op table_inv_def)
  qed (use tab in \<open>auto simp: table_inv_def ch(1,3,6,7) distinct_map_filter\<close>)
  moreover have "gate_inv c'" by (auto simp: gate_inv_def al ch(1,5,6))
  ultimately show ?thesis by (simp add: client_inv_def)
qed

section \<open>The scheduler the client implements\<close>

text \<open>
  What the client promises about operations, without heap, table or addresses: a queue of
  accepted operations and at most one that runs.
\<close>

record scheduler =
  waiting :: "(u32 \<times> Kind) list"
  running_op :: "(u32 \<times> Kind) option"

definition ptr_entry :: "callback_client \<Rightarrow> task_ptr \<Rightarrow> u32 \<times> Kind" where
  "ptr_entry c p = (ptr_op c p, kind (heap c p))"

definition sched_of :: "callback_client \<Rightarrow> scheduler" where
  "sched_of c = \<lparr>waiting = map (ptr_entry c) (task_queue c),
     running_op = (if current_task c = nullptr then None else Some (ptr_entry c (current_task c)))\<rparr>"

definition sched_ops :: "scheduler \<Rightarrow> u32 set" where
  "sched_ops s = fst ` set (waiting s) \<union> fst ` set_option (running_op s)"

definition sched_start :: "u32 \<times> Kind \<Rightarrow> scheduler \<Rightarrow> scheduler" where
  "sched_start e s = s\<lparr>waiting := waiting s @ [e]\<rparr>"

definition sched_cancel :: "u32 \<Rightarrow> scheduler \<Rightarrow> scheduler" where
  "sched_cancel i s = s\<lparr>waiting := filter (\<lambda>(j, k). j \<noteq> i) (waiting s)\<rparr>"

definition sched_gate :: "FeatureToggles \<Rightarrow> scheduler \<Rightarrow> scheduler" where
  "sched_gate toggles s = s\<lparr>waiting := filter (\<lambda>(j, k). IsTaskAllowed toggles k) (waiting s)\<rparr>"

definition sched_clear :: "scheduler \<Rightarrow> scheduler" where
  "sched_clear s = s\<lparr>waiting := []\<rparr>"

definition sched_take :: "scheduler \<Rightarrow> scheduler" where
  "sched_take s = s\<lparr>waiting := tl (waiting s), running_op := Some (hd (waiting s))\<rparr>"

definition sched_finish :: "scheduler \<Rightarrow> scheduler" where
  "sched_finish s = s\<lparr>running_op := None\<rparr>"

lemmas sched_defs = sched_of_def sched_start_def sched_cancel_def sched_gate_def sched_clear_def
  sched_take_def sched_finish_def

lemma sched_of_cong:
  assumes "task_queue d = task_queue c" "current_task d = current_task c"
    and "\<And>p. p \<in> set (task_queue c) \<or> p = current_task c \<Longrightarrow> op_id (heap d p) = op_id (heap c p) \<and> kind (heap d p) = kind (heap c p)"
  shows "sched_of d = sched_of c"
  using assms by (auto simp: sched_of_def ptr_entry_def ptr_op_def)

lemma sched_of_sends [simp]: "sched_of (sends ms c) = sched_of c"
  by (rule sched_of_cong) auto

lemma sched_of_EnqueueWrite [simp]: "sched_of (EnqueueWrite m c) = sched_of c"
  by (rule sched_of_cong) auto

lemma sched_of_cancel_task [simp]: "sched_of (cancel_task p c) = sched_of c"
  by (rule sched_of_cong) auto

text \<open>Under the table invariant the tracked identifiers are exactly those of the scheduler.\<close>

lemma table_ops: "table_inv c \<Longrightarrow> fst ` set (tasks c) = sched_ops (sched_of c)"
proof -
  assume tab: "table_inv c"
  have "k \<in> sched_ops (sched_of c)" if "(k, p) \<in> set (tasks c)" for k p
    using table_entry [OF tab that] by (auto simp: sched_ops_def sched_of_def ptr_entry_def image_iff)
  then have "fst ` set (tasks c) \<subseteq> sched_ops (sched_of c)" by auto
  moreover have "sched_ops (sched_of c) \<subseteq> fst ` set (tasks c)"
    using table_queued [OF tab] table_current [OF tab]
    by (force simp: sched_ops_def sched_of_def ptr_entry_def split: if_splits)
  ultimately show ?thesis by blast
qed

lemma table_lookup: "table_inv c \<Longrightarrow> map_of (tasks c) i = None \<longleftrightarrow> i \<notin> sched_ops (sched_of c)"
  by (simp add: map_of_eq_None_iff table_ops)

text \<open>The identifiers of queued and running operations are pairwise different.\<close>

lemma waiting_distinct:
  assumes tab: "table_inv c"
  shows "distinct (map (ptr_op c) (task_queue c))"
    and "current_task c \<noteq> nullptr \<Longrightarrow> ptr_op c (current_task c) \<notin> ptr_op c ` set (task_queue c)"
proof -
  show "distinct (map (ptr_op c) (task_queue c))"
    unfolding distinct_map inj_on_def
    using table_op_inj [OF tab table_queued [OF tab] table_queued [OF tab]] tab
    by (auto simp: table_inv_def)
  assume cur: "current_task c \<noteq> nullptr"
  show "ptr_op c (current_task c) \<notin> ptr_op c ` set (task_queue c)"
  proof
    assume "ptr_op c (current_task c) \<in> ptr_op c ` set (task_queue c)"
    then obtain p where p: "p \<in> set (task_queue c)" "ptr_op c (current_task c) = ptr_op c p" by auto
    from table_op_inj [OF tab table_current [OF tab cur] table_queued [OF tab p(1)] p(2)] p(1) tab
    show False by (auto simp: table_inv_def)
  qed
qed

section \<open>Each handler refines a scheduler operation\<close>

lemma StartOp_check_InrD:
  assumes "StartOp_check start c = Inr t"
  shows "op_id t = meta_op_id start" and "op_id t \<noteq> 0" and "map_of (tasks c) (op_id t) = None"
    and "\<not> drain_mode c" and "IsTaskAllowed (active_features c) (kind t)"
    and "IsTaskAllowed (active_features c) (kind t) \<Longrightarrow> task_state t = kPending \<and> \<not> cancel_requested t"
  using assms
  by (auto simp: StartOp_check_def Let_def IsTaskAllowed_def make_LogFilterTask_def make_PcapTask_def
        make_ExecTask_def new_Task_def split: if_splits OpSpec.splits)

text \<open>The decision of \<open>HandleStartOp\<close> as one value: the reason of a refusal or the accepted task.\<close>

definition StartOp_decision :: "StartOp \<Rightarrow> callback_client \<Rightarrow> string + Task" where
  "StartOp_decision start c =
     (case StartOp_check start c of
        Inl reason \<Rightarrow> Inl reason
      | Inr t \<Rightarrow> (case StartOp_validate t of Some reason \<Rightarrow> Inl reason | None \<Rightarrow> Inr t))"

lemma StartOp_decision_InrD:
  assumes "StartOp_decision start c = Inr t"
  shows "StartOp_check start c = Inr t" and "StartOp_validate t = None"
  using assms by (auto simp: StartOp_decision_def split: sum.splits option.splits)

lemma HandleStartOp_reject:
  "StartOp_decision start c = Inl reason \<Longrightarrow>
   HandleStartOp start c = EnqueueWrite (Ack (meta_op_id start) False reason) c"
  by (auto simp: StartOp_decision_def HandleStartOp_def SendAck_def Let_def split: sum.splits option.splits)

lemma HandleStartOp_accept:
  assumes "StartOp_decision start c = Inr t"
  shows "\<exists>c1. StartOp_commit t c = (None, c1) \<and>
           HandleStartOp start c = EnqueueWrite (Ack (meta_op_id start) True '''') c1"
proof -
  note ch = StartOp_decision_InrD [OF assms]
  have "IsTaskAllowed (active_features c) (kind t)" by (rule StartOp_check_InrD [OF ch(1)])
  with ch show ?thesis by (simp add: HandleStartOp_def SendAck_def StartOp_commit_def Let_def)
qed

lemma sched_of_commit:
  assumes tab: "table_inv c" and com: "StartOp_commit t c = (None, c1)"
  shows "sched_of c1 = sched_start (op_id t, kind t) (sched_of c)" and "enqueued c1 = enqueued c"
proof -
  let ?p = "next_ptr c"
  from com have c1: "c1 = c\<lparr>heap := (heap c)(?p := t), next_ptr := Suc ?p,
        tasks := AList.update (op_id t) ?p (tasks c), task_queue := task_queue c @ [?p]\<rparr>"
    by (auto simp: StartOp_commit_def Let_def split: if_splits)
  have old: "p \<noteq> ?p" if "p \<in> set (task_queue c)" for p
    using table_entry [OF tab table_queued [OF tab that]] by auto
  have "current_task c \<noteq> ?p"
    using table_entry [OF tab table_current [OF tab]] tab by (cases "current_task c = nullptr") (auto simp: table_inv_def)
  with old show "sched_of c1 = sched_start (op_id t, kind t) (sched_of c)"
    by (auto simp: c1 sched_of_def sched_start_def ptr_entry_def ptr_op_def)
  show "enqueued c1 = enqueued c" by (simp add: c1)
qed

lemma sched_of_HandleCancel_locked:
  assumes tab: "table_inv c" and h: "HandleCancel_locked i c = (c', ops)"
  shows "sched_of c' = sched_cancel i (sched_of c)"
    and "ops = (if i \<in> fst ` set (waiting (sched_of c)) then [i] else [])"
    and "enqueued c' = enqueued c"
proof -
  have "sched_of c' = sched_cancel i (sched_of c) \<and>
    ops = (if i \<in> fst ` set (waiting (sched_of c)) then [i] else []) \<and> enqueued c' = enqueued c"
  proof (cases "\<exists>p \<in> set (task_queue c). ptr_op c p = i")
    case True
    then obtain p where p: "p \<in> set (task_queue c)" "ptr_op c p = i" by auto
    note q = table_queued [OF tab p(1)]
    have look: "map_of (tasks c) i = Some p"
      using q p(2) tab by (auto simp: table_inv_def intro: map_of_is_SomeI)
    have cur: "current_task c \<noteq> p" using p(1) tab by (auto simp: table_inv_def)
    have "filter (\<lambda>q. ptr_op c q \<noteq> i) (task_queue c) = filter (\<lambda>q. p \<noteq> q) (task_queue c)"
      using table_op_inj [OF tab q table_queued [OF tab]] p(2) by (intro filter_cong) auto
    then have "remove1 p (task_queue c) = filter (\<lambda>q. ptr_op c q \<noteq> i) (task_queue c)"
      using tab by (simp add: table_inv_def distinct_remove1_removeAll removeAll_filter_not_eq)
    with h look cur p table_entry [OF tab q] show ?thesis
      by (auto simp: HandleCancel_locked_def sched_of_def sched_cancel_def ptr_entry_def ptr_op_def
            filter_map o_def image_iff)
  next
    case False
    have "filter (\<lambda>q. ptr_op c q \<noteq> i) (task_queue c) = task_queue c"
      using False by (intro filter_True) auto
    moreover have "p \<notin> set (task_queue c) \<and> p \<noteq> nullptr" if "map_of (tasks c) i = Some p" for p
      using False table_entry [OF tab map_of_SomeD [OF that]] by auto
    ultimately show ?thesis
      using h False
      by (auto simp: HandleCancel_locked_def sched_of_def sched_cancel_def ptr_entry_def ptr_op_def
            filter_map o_def image_iff split: option.splits if_splits)
  qed
  then show "sched_of c' = sched_cancel i (sched_of c)"
    and "ops = (if i \<in> fst ` set (waiting (sched_of c)) then [i] else [])"
    and "enqueued c' = enqueued c" by auto
qed

lemma sched_of_ApplyFeatureUpdate_locked:
  assumes inv: "client_inv c" and app: "ApplyFeatureUpdate_locked toggles c = (c', ops)"
  shows "sched_of c' = sched_gate toggles (sched_of c)"
    and "ops = map fst (filter (\<lambda>(j, k). \<not> IsTaskAllowed toggles k) (waiting (sched_of c)))"
    and "enqueued c' = enqueued c"
proof -
  have "sched_of c' = sched_gate toggles (sched_of c) \<and>
    ops = map fst (filter (\<lambda>(j, k). \<not> IsTaskAllowed toggles k) (waiting (sched_of c))) \<and>
    enqueued c' = enqueued c"
  proof (cases "active_features c = toggles")
    case True
    have "filter (\<lambda>p. IsTaskAllowed toggles (kind (heap c p))) (task_queue c) = task_queue c"
      using inv True by (intro filter_True) (auto simp: client_inv_def gate_inv_def ptr_allowed_def allowed_under_def)
    moreover have "filter (\<lambda>p. \<not> allowed_under toggles c p) (task_queue c) = []"
      using inv True by (intro filter_False) (auto simp: client_inv_def gate_inv_def ptr_allowed_def allowed_under_def)
    ultimately show ?thesis using app True
      by (simp add: ApplyFeatureUpdate_locked_def sched_of_def sched_gate_def ptr_entry_def
            filter_map o_def allowed_under_def)
  next
    case False
    have tab: "table_inv c" using inv by (simp add: client_inv_def)
    note ch = ApplyFeatureUpdate_locked_char [OF tab False app]
    have op: "ptr_entry c' = ptr_entry c" using ch(4) by (simp add: ptr_op_def ptr_entry_def fun_eq_iff)
    have au: "allowed_under toggles c = (\<lambda>p. IsTaskAllowed toggles (snd (ptr_entry c p)))"
      by (simp add: allowed_under_def ptr_entry_def fun_eq_iff)
    have po: "ptr_op c = (\<lambda>p. fst (ptr_entry c p))" by (simp add: ptr_entry_def fun_eq_iff)
    show ?thesis
      by (simp add: sched_of_def sched_gate_def ch(1,2,6,9) op au po filter_map o_def case_prod_beta)
  qed
  then show "sched_of c' = sched_gate toggles (sched_of c)"
    and "ops = map fst (filter (\<lambda>(j, k). \<not> IsTaskAllowed toggles k) (waiting (sched_of c)))"
    and "enqueued c' = enqueued c" by auto
qed

text \<open>The entries of the table other than the running task are the queued operations, once each.\<close>

lemma table_rest:
  assumes tab: "table_inv c"
    and "ops = map (ptr_op c) (map snd (filter (\<lambda>(k, p). p \<noteq> nullptr \<and> \<not> (current_task c \<noteq> nullptr \<and> p = current_task c)) (tasks c)))"
  shows "distinct ops" and "set ops = fst ` set (waiting (sched_of c))"
proof -
  let ?keep = "\<lambda>(k, p). p \<noteq> nullptr \<and> \<not> (current_task c \<noteq> nullptr \<and> p = current_task c)"
  have ops: "ops = map fst (filter ?keep (tasks c))"
    using table_entry [OF tab] by (auto simp: assms(2) map_eq_conv)
  show "distinct ops" using tab by (simp add: ops table_inv_def distinct_map_filter)
  show "set ops = fst ` set (waiting (sched_of c))"
  proof (intro set_eqI iffI)
    fix i assume "i \<in> set ops"
    then obtain p where p: "(i, p) \<in> set (tasks c)" "?keep (i, p)" by (auto simp: ops)
    with table_entry [OF tab p(1)] show "i \<in> fst ` set (waiting (sched_of c))"
      by (auto simp: sched_of_def ptr_entry_def image_iff)
  next
    fix i assume "i \<in> fst ` set (waiting (sched_of c))"
    then obtain p where p: "p \<in> set (task_queue c)" "i = ptr_op c p"
      by (auto simp: sched_of_def ptr_entry_def)
    note e = table_queued [OF tab p(1)]
    have "?keep (i, p)" using p tab table_entry [OF tab e] by (auto simp: table_inv_def)
    with e p show "i \<in> set ops" by (force simp: ops)
  qed
qed

lemma sched_of_CancelAllLocked_table:
  assumes tab: "table_inv c" and h: "CancelAllLocked_table c = (c', ops)"
  shows "sched_of c' = sched_clear (sched_of c)" and "distinct ops"
    and "set ops = fst ` set (waiting (sched_of c))" and "enqueued c' = enqueued c"
proof -
  from h have ops: "ops = map (ptr_op c) (map snd (filter (\<lambda>(k, p). p \<noteq> nullptr \<and> \<not> (current_task c \<noteq> nullptr \<and> p = current_task c)) (tasks c)))"
    by (auto simp: CancelAllLocked_table_def Let_def filter_map o_def case_prod_unfold)
  show "distinct ops" "set ops = fst ` set (waiting (sched_of c))"
    by (fact table_rest [OF tab ops])+
  show "sched_of c' = sched_clear (sched_of c)" "enqueued c' = enqueued c"
    using h by (auto simp: CancelAllLocked_table_def Let_def sched_of_def sched_clear_def ptr_entry_def ptr_op_def)
qed

lemma sched_of_HandleShutdown_locked:
  assumes tab: "table_inv c" and h: "HandleShutdown_locked False c = (c', ops)"
  shows "sched_of c' = sched_clear (sched_of c)" and "enqueued c' = enqueued c"
    and "\<exists>rest. ops = map fst (waiting (sched_of c)) @ rest \<and> distinct rest \<and>
           set rest = fst ` set (waiting (sched_of c))"
proof -
  let ?rest = "map (ptr_op c) (map snd (filter (\<lambda>(k, p). p \<noteq> nullptr \<and> \<not> (current_task c \<noteq> nullptr \<and> p = current_task c)) (tasks c)))"
  have nz: "filter (\<lambda>p. p \<noteq> nullptr) (task_queue c) = task_queue c"
    using table_entry [OF tab table_queued [OF tab]] by (intro filter_True) auto
  have "ops = map (ptr_op c) (filter (\<lambda>p. p \<noteq> nullptr) (task_queue c)) @ ?rest"
    using h by (cases "current_task c = nullptr") (auto simp: HandleShutdown_locked_def Let_def)
  then have "ops = map fst (waiting (sched_of c)) @ ?rest"
    unfolding nz by (simp add: sched_of_def ptr_entry_def o_def)
  then show "\<exists>rest. ops = map fst (waiting (sched_of c)) @ rest \<and> distinct rest \<and>
           set rest = fst ` set (waiting (sched_of c))"
    using table_rest [OF tab refl] by blast
  show "sched_of c' = sched_clear (sched_of c)" "enqueued c' = enqueued c"
    using h
    by (cases "current_task c = nullptr";
        auto simp: HandleShutdown_locked_def Let_def sched_of_def sched_clear_def ptr_entry_def ptr_op_def)+
qed

lemma sched_of_Worker_take:
  assumes "table_inv c" and "task_queue c = p # q"
  shows "sched_of (Worker_take c) = sched_take (sched_of c)"
  using assms table_entry [OF assms(1) table_queued [OF assms(1), of p]]
  by (simp add: Worker_take_def sched_of_def sched_take_def ptr_entry_def ptr_op_def)

lemma sched_of_Worker_finish: "sched_of (Worker_finish p c) = sched_finish (sched_of c)"
  by (simp add: Worker_finish_def Let_def sched_of_def sched_finish_def ptr_entry_def ptr_op_def)

lemma terminals_errors [simp]:
  "terminals i (map (\<lambda>j. Error j co ms) ops) = count_list ops i"
  by (induction ops) auto

lemma count_list_distinct: "distinct xs \<Longrightarrow> count_list xs x = (if x \<in> set xs then 1 else 0)"
  by (induction xs) auto

section \<open>The client is a well-behaved owner of its stream\<close>

lemma owner_steps_more_eq:
  "owner_steps s t \<Longrightarrow> stream_client.truncate t = stream_client.truncate u \<Longrightarrow> owner_steps s u"
proof -
  assume a: "owner_steps s t" "stream_client.truncate t = stream_client.truncate u"
  then have "u = stream_client.more_update (\<lambda>_. stream_client.more u) t"
    by (simp add: stream_client.defs)
  with owner_steps.own [OF a(1), of "\<lambda>_. stream_client.more u"] show ?thesis by simp
qed

lemma owner_steps_sends_client: "owner_steps s t \<Longrightarrow> owner_steps s (sends ms t)"
  by (simp add: sends_def owner_steps_sends)

lemma truncate_client [simp]:
  "stream_client.truncate (c\<lparr>heap := a\<rparr>) = stream_client.truncate c"
  "stream_client.truncate (c\<lparr>next_ptr := n\<rparr>) = stream_client.truncate c"
  "stream_client.truncate (c\<lparr>task_queue := q\<rparr>) = stream_client.truncate c"
  "stream_client.truncate (c\<lparr>tasks := ts\<rparr>) = stream_client.truncate c"
  "stream_client.truncate (c\<lparr>drain_mode := b\<rparr>) = stream_client.truncate c"
  "stream_client.truncate (c\<lparr>c_running := b\<rparr>) = stream_client.truncate c"
  "stream_client.truncate (cancel_task p c) = stream_client.truncate c"
  "stream_client.truncate (cancel_tasks ps c) = stream_client.truncate c"
proof -
  show t: "stream_client.truncate (cancel_task p c) = stream_client.truncate c" for p c
    by (simp add: cancel_task_def stream_client.defs)
  show "stream_client.truncate (cancel_tasks ps c) = stream_client.truncate c"
    unfolding cancel_tasks_def by (induction ps arbitrary: c) (simp_all add: t)
qed (simp_all add: stream_client.defs)

lemma locked_truncate:
  "StartOp_commit t c = (r, c1) \<Longrightarrow> stream_client.truncate c1 = stream_client.truncate c"
  "HandleCancel_locked i c = (c1, ops) \<Longrightarrow> stream_client.truncate c1 = stream_client.truncate c"
  "HandleShutdown_locked b c = (c1, ops) \<Longrightarrow> stream_client.truncate c1 = stream_client.truncate c"
  "CancelAllLocked_table c = (c1, ops) \<Longrightarrow> stream_client.truncate c1 = stream_client.truncate c"
  by (auto simp: StartOp_commit_def HandleCancel_locked_def HandleShutdown_locked_def
        CancelAllLocked_table_def Let_def split: if_splits option.splits)

lemmas owner_locked = owner_steps_more_eq [OF owner_steps.idle sym]

lemma owner_HandleStartOp: "owner_steps c (HandleStartOp start c)"
proof (cases "StartOp_decision start c")
  case (Inl reason)
  then show ?thesis by (simp add: HandleStartOp_reject owner_steps.send owner_steps.idle)
next
  case (Inr t)
  from HandleStartOp_accept [OF Inr] obtain c1 where
    "StartOp_commit t c = (None, c1)" "HandleStartOp start c = EnqueueWrite (Ack (meta_op_id start) True '''') c1"
    by blast
  then show ?thesis by (auto intro: owner_steps.send owner_locked dest: locked_truncate(1))
qed

lemma owner_HandleCancel: "owner_steps c (HandleCancel i c)"
  by (cases "HandleCancel_locked i c")
     (auto simp: HandleCancel_def intro: owner_steps_sends_client owner_locked dest: locked_truncate(2))

lemma owner_HandleShutdown: "owner_steps c (HandleShutdown b c)"
proof (cases "HandleShutdown_locked b c")
  case (Pair c1 ops)
  then have 1: "owner_steps c c1" by (auto intro: owner_locked dest: locked_truncate(3))
  then have "owner_steps c (CancelStream (sends (map cancelled_error ops) c1))"
    by (intro owner_steps.cancel owner_steps_sends_client)
  with 1 Pair show ?thesis
    by (auto simp: HandleShutdown_def intro: owner_steps_more_eq)
qed

lemma owner_HandleStreamClosed: "owner_steps c (HandleStreamClosed st c)"
  by (cases "CancelAllLocked_table c")
     (auto simp: HandleStreamClosed_def CancelAllLocked_def intro: owner_steps_sends_client owner_locked
        dest: locked_truncate(4))

lemma owner_HandleStreamMessage: "owner_steps c (HandleStreamMessage msg ok c)"
  by (auto simp: HandleStreamMessage_def owner_HandleStartOp owner_HandleCancel owner_HandleShutdown
        intro: owner_steps.intros split: ServerToAgent.split)

interpretation client_stream: stream_owner client_callbacks
  by unfold_locales
     (auto simp: client_callbacks_def SetStreamClosedCallback_def SetMessageCallback_def SetReadyCallback_def
        owner_HandleStreamMessage owner_HandleStreamClosed intro: owner_steps.intros)

end
