(* ===== verification/Agent_System.thy ===== *)
theory Agent_System
  imports Callback_Client
begin

text \<open>
  The control client as its threads run it: the gRPC callback thread (serialised by
  \<open>callback_mu_\<close>), the thread that publishes authorization events, the worker, the thread in
  \<open>Run\<close>, and gRPC. A step is one critical section or one call of \<open>EnqueueWrite\<close>; what a thread
  still has to do is its program counter. A running task is any sequence of data messages of its
  operation followed by one trailer or error, which is what the task theories show \<open>Task::Run\<close> to
  be.
\<close>

section \<open>Threads\<close>

text \<open>
  Where the callback thread is: between messages, after the first critical section of
  \<open>HandleStartOp\<close> with a validated task, before an acknowledgement, or sending what a critical
  section left to report (the flag: a shutdown, which then cancels the stream and stops).
\<close>

datatype cb_pc =
    CbIdle
  | CbStart Task
  | CbAck u32 bool string
  | CbSend "AgentToServer list" bool

text \<open>
  Where the worker is: at the loop test, in the wait, running a task, after the task returned,
  or out of the loop.
\<close>

datatype worker_pc = WTop | WWait | WRun task_ptr | WFin task_ptr | WDone

text \<open>
  \<open>accepted\<close> and \<open>taken\<close> record the operations filed by \<open>HandleStartOp\<close> and started by the worker;
  \<open>shut\<close> whether a shutdown without drain has been handled.
\<close>

record agent =
  client :: callback_client
  callback_thread :: cb_pc
  auth_out :: "u32 list"
  worker :: worker_pc
  accepted :: "u32 list"
  taken :: "u32 list"
  shut :: bool

definition initial_agent :: "callback_client \<Rightarrow> agent" where
  "initial_agent c = \<lparr>client = Run_begin (c\<lparr>c_running := True\<rparr>), callback_thread = CbIdle, auth_out = [],
     worker = WTop, accepted = [], taken = [], shut = False\<rparr>"

definition set_task_state :: "TaskState \<Rightarrow> task_ptr \<Rightarrow> callback_client \<Rightarrow> callback_client" where
  "set_task_state st p c = c\<lparr>heap := (heap c)(p := SetState st (heap c p))\<rparr>"

inductive agent_step :: "(nat \<Rightarrow> int) \<Rightarrow> agent \<Rightarrow> agent \<Rightarrow> bool" for backoff where
  ping: "callback_thread a = CbIdle \<Longrightarrow>
    agent_step backoff a (a\<lparr>client := EnqueueWrite (MakePong (agent_id (client a)) sq) (client a)\<rparr>)"
| start_refuse: "callback_thread a = CbIdle \<Longrightarrow> StartOp_check start (client a) = Inl reason \<Longrightarrow>
    agent_step backoff a (a\<lparr>client := SendAck (meta_op_id start) False reason (client a)\<rparr>)"
| start_invalid: "callback_thread a = CbIdle \<Longrightarrow> StartOp_check start (client a) = Inr t \<Longrightarrow>
    StartOp_validate t = Some reason \<Longrightarrow>
    agent_step backoff a (a\<lparr>callback_thread := CbAck (meta_op_id start) False reason\<rparr>)"
| start_valid: "callback_thread a = CbIdle \<Longrightarrow> StartOp_check start (client a) = Inr t \<Longrightarrow>
    StartOp_validate t = None \<Longrightarrow> agent_step backoff a (a\<lparr>callback_thread := CbStart t\<rparr>)"
| start_late: "callback_thread a = CbStart t \<Longrightarrow> StartOp_commit t (client a) = (Some reason, c) \<Longrightarrow>
    agent_step backoff a (a\<lparr>client := c, callback_thread := CbAck (op_id t) False reason\<rparr>)"
| start_commit: "callback_thread a = CbStart t \<Longrightarrow> StartOp_commit t (client a) = (None, c) \<Longrightarrow>
    agent_step backoff a (a\<lparr>client := c, callback_thread := CbAck (op_id t) True '''',
      accepted := accepted a @ [op_id t]\<rparr>)"
| ack: "callback_thread a = CbAck i b reason \<Longrightarrow>
    agent_step backoff a (a\<lparr>client := SendAck i b reason (client a), callback_thread := CbIdle\<rparr>)"
| cancel_op: "callback_thread a = CbIdle \<Longrightarrow> HandleCancel_locked i (client a) = (c, ops) \<Longrightarrow>
    agent_step backoff a (a\<lparr>client := c, callback_thread := CbSend (map cancelled_error ops) False\<rparr>)"
| drain: "callback_thread a = CbIdle \<Longrightarrow> HandleShutdown_locked True (client a) = (c, ops) \<Longrightarrow>
    agent_step backoff a (a\<lparr>client := c\<rparr>)"
| shutdown: "callback_thread a = CbIdle \<Longrightarrow> HandleShutdown_locked False (client a) = (c, ops) \<Longrightarrow>
    agent_step backoff a (a\<lparr>client := c, callback_thread := CbSend (map cancelled_error ops) True,
      shut := True\<rparr>)"
| cb_send: "callback_thread a = CbSend (m # ms) b \<Longrightarrow>
    agent_step backoff a (a\<lparr>client := EnqueueWrite m (client a), callback_thread := CbSend ms b\<rparr>)"
| cb_sent: "callback_thread a = CbSend [] b \<Longrightarrow>
    agent_step backoff a (a\<lparr>client := (if b then (CancelStream (client a))\<lparr>c_running := False\<rparr> else client a),
      callback_thread := CbIdle\<rparr>)"
| auth_event: "auth_out a = [] \<Longrightarrow>
    ApplyFeatureUpdate_locked (event_toggles ev (client a)) (client a) = (c, ops) \<Longrightarrow>
    agent_step backoff a (a\<lparr>client := c, auth_out := ops\<rparr>)"
| auth_send: "auth_out a = i # ops \<Longrightarrow>
    agent_step backoff a (a\<lparr>client := EnqueueWrite (unauthorized i) (client a), auth_out := ops\<rparr>)"
| worker_loop: "worker a = WTop \<Longrightarrow> c_running (client a) \<Longrightarrow> agent_step backoff a (a\<lparr>worker := WWait\<rparr>)"
| worker_leave: "worker a = WTop \<Longrightarrow> \<not> c_running (client a) \<Longrightarrow> agent_step backoff a (a\<lparr>worker := WDone\<rparr>)"
| worker_break: "worker a = WWait \<Longrightarrow> Worker_ready (client a) \<Longrightarrow> Worker_break (client a) \<Longrightarrow>
    agent_step backoff a (a\<lparr>worker := WDone\<rparr>)"
| worker_take: "worker a = WWait \<Longrightarrow> Worker_ready (client a) \<Longrightarrow> \<not> Worker_break (client a) \<Longrightarrow>
    task_queue (client a) = p # q \<Longrightarrow>
    agent_step backoff a (a\<lparr>client := Worker_take (client a), worker := WRun p,
      taken := taken a @ [ptr_op (client a) p]\<rparr>)"
| task_data: "worker a = WRun p \<Longrightarrow>
    agent_step backoff a (a\<lparr>client := EnqueueWrite (Data (ptr_op (client a) p) payload) (client a)\<rparr>)"
| task_end: "worker a = WRun p \<Longrightarrow> is_terminal_for (ptr_op (client a) p) m \<Longrightarrow>
    agent_step backoff a (a\<lparr>client := EnqueueWrite m (set_task_state st p (client a)), worker := WFin p\<rparr>)"
| worker_finish: "worker a = WFin p \<Longrightarrow>
    agent_step backoff a (a\<lparr>client := Worker_finish p (client a), worker := WTop\<rparr>)"
| write_done: "outstanding r (io_log (client a)) \<Longrightarrow>
    agent_step backoff a (a\<lparr>client := Reactor_OnWriteDone r k (client a)\<rparr>)"
| closed: "callback_thread a = CbIdle \<Longrightarrow> live r (client a) \<Longrightarrow> \<not> outstanding r (io_log (client a)) \<Longrightarrow>
    agent_step backoff a (a\<lparr>client := Reactor_OnDone client_callbacks r status (client a)\<rparr>)"
| connect: "callback_thread a = CbIdle \<Longrightarrow> ShouldContinue (client_stream_options backoff) (client a) \<Longrightarrow>
    \<forall>r < next_reactor (client a). done_status (client a) r \<noteq> None \<Longrightarrow>
    agent_step backoff a (a\<lparr>client := Run_connect client_callbacks (client a)\<rparr>)"
| retry: "done_status (client a) r \<noteq> None \<Longrightarrow>
    agent_step backoff a (a\<lparr>client := snd (Run_retry (client_stream_options backoff) r (client a))\<rparr>)"
| run_exit: "\<not> ShouldContinue (client_stream_options backoff) (client a) \<Longrightarrow>
    agent_step backoff a (a\<lparr>client := (client a)\<lparr>s_running := False, c_running := False, stop_worker := True\<rparr>\<rparr>)"
| signal: "agent_step backoff a (a\<lparr>client := (client a)\<lparr>env_run := False\<rparr>\<rparr>)"

abbreviation agent_reach :: "(nat \<Rightarrow> int) \<Rightarrow> agent \<Rightarrow> agent \<Rightarrow> bool" where
  "agent_reach backoff \<equiv> (agent_step backoff)\<^sup>*\<^sup>*"

section \<open>Invariants\<close>

text \<open>Messages a thread has decided on and not yet passed to \<open>EnqueueWrite\<close>.\<close>

fun cb_out :: "cb_pc \<Rightarrow> AgentToServer list" where
  "cb_out (CbAck i b reason) = [Ack i b reason]"
| "cb_out (CbSend ms b) = ms"
| "cb_out _ = []"

definition outgoing :: "agent \<Rightarrow> AgentToServer list" where
  "outgoing a = enqueued (client a) @ cb_out (callback_thread a) @ map unauthorized (auth_out a)"

fun worker_task :: "worker_pc \<Rightarrow> task_ptr" where
  "worker_task (WRun p) = p"
| "worker_task (WFin p) = p"
| "worker_task _ = nullptr"

text \<open>An operation is open while it is queued or its task has not yet reported its end.\<close>

definition open_op :: "agent \<Rightarrow> u32 \<Rightarrow> bool" where
  "open_op a i \<longleftrightarrow> i \<in> fst ` set (waiting (sched_of (client a))) \<or>
     (\<exists>p. worker a = WRun p \<and> ptr_op (client a) p = i)"

definition agent_inv :: "agent \<Rightarrow> bool" where
  "agent_inv a \<longleftrightarrow>
     stream_inv (client a) \<and> client_inv (client a) \<and>
     current_task (client a) = worker_task (worker a) \<and>
     (\<forall>p. worker a = WRun p \<or> worker a = WFin p \<longrightarrow> p \<noteq> nullptr) \<and>
     (\<forall>t. callback_thread a = CbStart t \<longrightarrow>
        op_id t \<noteq> 0 \<and> map_of (tasks (client a)) (op_id t) = None) \<and>
     subseq (taken a @ map fst (waiting (sched_of (client a)))) (accepted a)"

text \<open>The books: every accepted operation is answered or open; without a shutdown exactly one of them.\<close>

definition balance :: "agent \<Rightarrow> u32 \<Rightarrow> nat" where
  "balance a i = terminals i (outgoing a) + (if open_op a i then 1 else 0)"

definition books_inv :: "agent \<Rightarrow> bool" where
  "books_inv a \<longleftrightarrow>
     (\<forall>i. count_list (accepted a) i \<le> balance a i) \<and>
     (\<not> shut a \<longrightarrow> (\<forall>i. balance a i = count_list (accepted a) i)) \<and>
     (\<forall>i. accepts i (outgoing a) = count_list (accepted a) i)"

section \<open>What gRPC and the run thread do to the client\<close>

lemma same_client:
  assumes "stream_client.more d = stream_client.more c"
  shows "client_inv d = client_inv c" and "sched_of d = sched_of c" and "ptr_op d = ptr_op c"
    and "tasks d = tasks c" and "current_task d = current_task c"
  using client_part_eq [OF assms]
  by (simp_all add: client_inv_def table_inv_def gate_inv_def ptr_allowed_def ptr_op_def sched_of_def
        ptr_entry_def fun_eq_iff)

lemma OnWriteDone_effect:
  "stream_client.more (Reactor_OnWriteDone r k c) = stream_client.more c"
  "enqueued (Reactor_OnWriteDone r k c) = enqueued c"
  by (simp_all add: Reactor_OnWriteDone_def OnWriteFinished_def Let_def)

lemma Run_retry_effect:
  "stream_client.more (snd (Run_retry opts r c)) = stream_client.more c"
  "enqueued (snd (Run_retry opts r c)) = enqueued c"
  by (simp_all add: Run_retry_def Let_def)

lemma Run_connect_effect:
  "stream_client.more (Run_connect client_callbacks c) = stream_client.more c"
  "enqueued (Run_connect client_callbacks c) = enqueued c @ [MakeHello (agent_id c)]"
proof -
  have [simp]: "ready_callback client_callbacks = Some (\<lambda>c. EnqueueWrite (MakeHello (agent_id c)) c)"
    by (simp add: client_callbacks_def SetStreamClosedCallback_def SetMessageCallback_def SetReadyCallback_def)
  have ag: "agent_id (c\<lparr>reactor := x\<rparr>) = agent_id c" "agent_id (c\<lparr>next_reactor := n\<rparr>) = agent_id c"
    "agent_id (log_io e c) = agent_id c" for c :: callback_client and x n e
    by (simp_all add: log_io_def)
  show "stream_client.more (Run_connect client_callbacks c) = stream_client.more c"
    "enqueued (Run_connect client_callbacks c) = enqueued c @ [MakeHello (agent_id c)]"
    by (simp_all add: Run_connect_def Reactor_Start_def OnStreamReady_def Let_def ag)
qed

lemma OnDone_effect:
  obtains c0 d ops where "stream_client.more c0 = stream_client.more c" "enqueued c0 = enqueued c"
    and "CancelAllLocked_table c0 = (d, ops)"
    and "stream_client.more (Reactor_OnDone client_callbacks r st c) = stream_client.more d"
    and "enqueued (Reactor_OnDone client_callbacks r st c) =
           enqueued d @ map (\<lambda>i. Error i ''CANCELLED'' ''stream closed'') ops"
proof -
  have cb: "stream_closed_callback client_callbacks = Some HandleStreamClosed"
    by (simp add: client_callbacks_def SetStreamClosedCallback_def)
  let ?c0 = "(log_io (Done r) c)\<lparr>write_in_flight := False, current_write := None, pending_writes := [],
      reactor := None\<rparr>"
  obtain d ops where d: "CancelAllLocked_table ?c0 = (d, ops)" by fastforce
  show thesis
    by (rule that [OF _ _ d])
       (use d in \<open>simp_all add: Reactor_OnDone_def OnStreamClosed_def cb HandleStreamClosed_def
          CancelAllLocked_def Let_def\<close>)
qed

section \<open>Every step keeps the invariant\<close>

lemma stream_inv_truncate:
  assumes "stream_client.truncate d = stream_client.truncate c"
  shows "stream_inv d = stream_inv c"
proof -
  have "io_log d = io_log c" "write_in_flight d = write_in_flight c" "current_write d = current_write c"
    "reactor d = reactor c" "next_reactor d = next_reactor c" "done_status d = done_status c"
    "pending_writes d = pending_writes c" "enqueued d = enqueued c"
    using assms by (simp_all add: stream_client.defs)
  then show ?thesis by (simp add: stream_inv_def)
qed

lemma truncate_apply:
  "ApplyFeatureUpdate_locked toggles c = (c1, ops) \<Longrightarrow> stream_client.truncate c1 = stream_client.truncate c"
proof -
  assume a: "ApplyFeatureUpdate_locked toggles c = (c1, ops)"
  have q: "stream_client.truncate (fst (drop_queued d)) = stream_client.truncate d" for d
    by (simp add: drop_queued_def Let_def)
  have t: "stream_client.truncate (fst (drop_tabled d)) = stream_client.truncate d" for d
    by (simp add: drop_tabled_def Let_def)
  have f: "stream_client.truncate (c\<lparr>active_features := toggles\<rparr>) = stream_client.truncate c"
    by (simp add: stream_client.defs)
  show ?thesis
    using a q [of "c\<lparr>active_features := toggles\<rparr>"] t [of "fst (drop_queued (c\<lparr>active_features := toggles\<rparr>))"] f
    by (auto simp: ApplyFeatureUpdate_locked_def Let_def case_prod_beta split: if_splits)
qed

lemma truncate_worker:
  "stream_client.truncate (Worker_take c) = stream_client.truncate c"
  "stream_client.truncate (Worker_finish p c) = stream_client.truncate c"
  "stream_client.truncate (set_task_state st p c) = stream_client.truncate c"
  "stream_client.truncate (c\<lparr>env_run := False\<rparr>) = stream_client.truncate c"
  "stream_client.truncate (c\<lparr>stop_worker := b\<rparr>) = stream_client.truncate c"
  by (simp_all add: Worker_take_def Worker_finish_def Let_def set_task_state_def stream_client.defs)

lemmas stream_inv_locked = stream_inv_truncate [OF locked_truncate(1), THEN iffD2]
  stream_inv_truncate [OF locked_truncate(2), THEN iffD2]
  stream_inv_truncate [OF locked_truncate(3), THEN iffD2]
  stream_inv_truncate [OF truncate_apply, THEN iffD2]

lemmas stream_inv_worker = stream_inv_truncate [OF truncate_worker(1)] stream_inv_truncate [OF truncate_worker(2)]
  stream_inv_truncate [OF truncate_worker(3)] stream_inv_truncate [OF truncate_worker(4)]
  stream_inv_truncate [OF truncate_worker(5)] stream_inv_truncate [OF truncate_client(6)]

lemma agent_step_stream:
  assumes "agent_step backoff a b" and inv: "stream_inv (client a)"
  shows "stream_inv (client b)"
  using assms(1)
proof cases
  case (connect)
  have "stream_step (client_stream_options backoff) client_callbacks (client a)
      (Run_connect client_callbacks (client a))"
    using connect by (intro stream_step.connect) auto
  with connect inv show ?thesis by (auto intro: client_stream.stream_step_inv)
next
  case (closed r status)
  with inv stream_inv_live show ?thesis by (auto intro!: client_stream.inv_OnDone)
next
  case (retry r)
  with inv Run_retry_frame show ?thesis by simp blast
next
  case run_exit
  then show ?thesis using inv by (simp add: stream_inv_worker)
qed (use inv in \<open>auto simp: SendAck_def stream_inv_worker
      intro: stream_inv_EnqueueWrite stream_inv_CancelStream stream_inv_OnWriteDone stream_inv_locked\<close>)

lemma client_inv_frame:
  assumes "\<And>p. op_id (heap d p) = op_id (heap c p) \<and> kind (heap d p) = kind (heap c p) \<and>
      cancel_requested (heap d p) = cancel_requested (heap c p)" and "next_ptr d = next_ptr c" "task_queue d = task_queue c" "tasks d = tasks c"
    "current_task d = current_task c" "active_features d = active_features c"
  shows "client_inv d = client_inv c"
  using assms by (simp add: client_inv_def table_inv_def gate_inv_def ptr_allowed_def)

lemma client_inv_set_task_state [simp]: "client_inv (set_task_state st p c) = client_inv c"
  by (rule client_inv_frame) (simp_all add: set_task_state_def)

lemma sched_of_set_task_state [simp]:
  "sched_of (set_task_state st p c) = sched_of c" "enqueued (set_task_state st p c) = enqueued c"
  "ptr_op (set_task_state st p c) q = ptr_op c q" "tasks (set_task_state st p c) = tasks c"
  "current_task (set_task_state st p c) = current_task c"
  by (auto simp: set_task_state_def ptr_op_def intro!: sched_of_cong)

lemma sched_of_control [simp]:
  "sched_of (c\<lparr>drain_mode := b\<rparr>) = sched_of c" "sched_of (c\<lparr>c_running := b\<rparr>) = sched_of c"
  "sched_of (c\<lparr>stop_worker := b\<rparr>) = sched_of c" "sched_of (c\<lparr>env_run := b\<rparr>) = sched_of c"
  "sched_of (c\<lparr>s_running := b\<rparr>) = sched_of c" "sched_of (CancelStream c) = sched_of c"
  "ptr_op (c\<lparr>drain_mode := b\<rparr>) = ptr_op c" "ptr_op (c\<lparr>c_running := b\<rparr>) = ptr_op c"
  "ptr_op (c\<lparr>stop_worker := b\<rparr>) = ptr_op c" "ptr_op (c\<lparr>env_run := b\<rparr>) = ptr_op c"
  "ptr_op (c\<lparr>s_running := b\<rparr>) = ptr_op c" "ptr_op (CancelStream c) = ptr_op c"
  "ptr_op (EnqueueWrite m c) = ptr_op c"
  by (auto simp: ptr_op_def fun_eq_iff intro!: sched_of_cong)

lemma client_inv_OnDone:
  assumes "client_inv c"
  shows "client_inv (Reactor_OnDone client_callbacks r st c)"
proof -
  obtain c0 d ops where o: "stream_client.more c0 = stream_client.more c" "CancelAllLocked_table c0 = (d, ops)"
    "stream_client.more (Reactor_OnDone client_callbacks r st c) = stream_client.more d"
    by (rule OnDone_effect [of c r st]) blast
  with assms show ?thesis
    using client_inv_cancel_all [of c0 d ops] same_client(1) by blast
qed

lemma agent_step_client:
  assumes "agent_step backoff a b" and inv: "agent_inv a"
  shows "client_inv (client b)"
proof -
  have ci: "client_inv (client a)" and cur: "current_task (client a) = worker_task (worker a)"
    and nz: "\<And>p. worker a = WRun p \<or> worker a = WFin p \<Longrightarrow> p \<noteq> nullptr"
    and st: "\<And>t. callback_thread a = CbStart t \<Longrightarrow> op_id t \<noteq> 0 \<and> map_of (tasks (client a)) (op_id t) = None"
    using inv by (auto simp: agent_inv_def)
  from assms(1) show ?thesis
  proof cases
    case (start_late t reason c)
    then show ?thesis using ci by (auto simp: StartOp_commit_def Let_def split: if_splits)
  next
    case (start_commit t c)
    with st show ?thesis using client_inv_start [OF ci] by auto
  next
    case (worker_take p q)
    then show ?thesis using client_inv_take [OF ci] cur by auto
  next
    case (worker_finish p)
    then show ?thesis using client_inv_finish [OF ci] cur nz by auto
  next
    case (cb_sent x)
    then show ?thesis using ci by (subst client_inv_frame [where c = "client a"]) auto
  next
    case (run_exit)
    then show ?thesis using ci by (subst client_inv_frame [where c = "client a"]) auto
  next
    case (signal)
    then show ?thesis using ci by (subst client_inv_frame [where c = "client a"]) auto
  qed (use ci in \<open>auto simp: SendAck_def same_client(1) [OF OnWriteDone_effect(1)]
        same_client(1) [OF Run_retry_effect(1)] same_client(1) [OF Run_connect_effect(1)]
        intro: client_inv_cancel client_inv_shutdown client_inv_apply client_inv_OnDone\<close>)
qed

lemma subseq_tail: "subseq ws' ws \<Longrightarrow> subseq (ts @ ws) zs \<Longrightarrow> subseq (ts @ ws') zs"
  by (meson list_emb_append_mono subseq_order.order_refl subseq_order.order_trans)

lemma subseq_waiting:
  "subseq (map fst (waiting (sched_cancel i s))) (map fst (waiting s))"
  "subseq (map fst (waiting (sched_gate g s))) (map fst (waiting s))"
  "subseq (map fst (waiting (sched_clear s))) (map fst (waiting s))"
  by (simp_all add: sched_cancel_def sched_gate_def sched_clear_def subseq_map)

lemma table_shrinks:
  "HandleCancel_locked i c = (d, ops) \<Longrightarrow> set (tasks d) \<subseteq> set (tasks c)"
  "HandleShutdown_locked x c = (d, ops) \<Longrightarrow> set (tasks d) \<subseteq> set (tasks c)"
  "CancelAllLocked_table c = (d, ops) \<Longrightarrow> set (tasks d) \<subseteq> set (tasks c)"
  "set (tasks (Worker_finish p c)) \<subseteq> set (tasks c)"
  by (auto simp: HandleCancel_locked_def HandleShutdown_locked_def CancelAllLocked_table_def
        Worker_finish_def Let_def AList.delete_eq split: option.splits if_splits)

lemma table_shrinks_apply:
  "table_inv c \<Longrightarrow> ApplyFeatureUpdate_locked g c = (d, ops) \<Longrightarrow> set (tasks d) \<subseteq> set (tasks c)"
  using ApplyFeatureUpdate_locked_char(3) [of c g d ops]
  by (cases "active_features c = g") (auto simp: ApplyFeatureUpdate_locked_def)

lemma fresh_shrinks: "set (tasks d) \<subseteq> set (tasks c) \<Longrightarrow> map_of (tasks c) i = None \<Longrightarrow> map_of (tasks d) i = None"
  by (auto simp: map_of_eq_None_iff)

lemma locked_current:
  "HandleCancel_locked i c = (d, ops) \<Longrightarrow> current_task d = current_task c"
  "HandleShutdown_locked x c = (d, ops) \<Longrightarrow> current_task d = current_task c"
  "CancelAllLocked_table c = (d, ops) \<Longrightarrow> current_task d = current_task c"
  "StartOp_commit t c = (r, d) \<Longrightarrow> current_task d = current_task c"
  by (auto simp: HandleCancel_locked_def HandleShutdown_locked_def CancelAllLocked_table_def
        StartOp_commit_def Let_def split: option.splits if_splits)

lemma locked_current_apply:
  "table_inv c \<Longrightarrow> ApplyFeatureUpdate_locked g c = (d, ops) \<Longrightarrow> current_task d = current_task c"
  using ApplyFeatureUpdate_locked_char(6) [of c g d ops]
  by (cases "active_features c = g") (auto simp: ApplyFeatureUpdate_locked_def)

text \<open>Facts about the stream's end in the form the steps need them.\<close>

lemma OnDone_client:
  assumes tab: "table_inv c"
  shows "sched_of (Reactor_OnDone client_callbacks r st c) = sched_clear (sched_of c)"
    and "set (tasks (Reactor_OnDone client_callbacks r st c)) \<subseteq> set (tasks c)"
    and "current_task (Reactor_OnDone client_callbacks r st c) = current_task c"
    and "\<exists>ops. enqueued (Reactor_OnDone client_callbacks r st c) =
            enqueued c @ map (\<lambda>i. Error i ''CANCELLED'' ''stream closed'') ops \<and>
          distinct ops \<and> set ops = fst ` set (waiting (sched_of c))"
    and "ptr_op (Reactor_OnDone client_callbacks r st c) = ptr_op c"
proof -
  obtain c0 d ops where o: "stream_client.more c0 = stream_client.more c" "enqueued c0 = enqueued c"
    and d: "CancelAllLocked_table c0 = (d, ops)"
    and m: "stream_client.more (Reactor_OnDone client_callbacks r st c) = stream_client.more d"
    and e: "enqueued (Reactor_OnDone client_callbacks r st c) =
           enqueued d @ map (\<lambda>i. Error i ''CANCELLED'' ''stream closed'') ops"
    by (rule OnDone_effect [of c r st])
  note f = client_part_eq [OF o(1)]
  have t0: "table_inv c0" using tab f by (simp add: table_inv_def)
  note ch = sched_of_CancelAllLocked_table [OF t0 d]
  note sd = same_client [OF m] and s0 = same_client [OF o(1)]
  show "sched_of (Reactor_OnDone client_callbacks r st c) = sched_clear (sched_of c)"
    by (simp add: sd ch s0)
  show "set (tasks (Reactor_OnDone client_callbacks r st c)) \<subseteq> set (tasks c)"
    using table_shrinks(3) [OF d] by (simp add: sd s0)
  show "current_task (Reactor_OnDone client_callbacks r st c) = current_task c"
    using locked_current(3) [OF d] by (simp add: sd s0)
  show "\<exists>ops. enqueued (Reactor_OnDone client_callbacks r st c) =
            enqueued c @ map (\<lambda>i. Error i ''CANCELLED'' ''stream closed'') ops \<and>
          distinct ops \<and> set ops = fst ` set (waiting (sched_of c))"
    using ch e o(2) by (auto simp: s0)
  have "ptr_op d = ptr_op c0"
    using d by (auto simp: CancelAllLocked_table_def Let_def ptr_op_def fun_eq_iff)
  then show "ptr_op (Reactor_OnDone client_callbacks r st c) = ptr_op c" by (simp add: sd s0)
qed

lemma subseq_take: "subseq (ts @ w # ws) zs \<Longrightarrow> subseq ((ts @ [w]) @ ws) zs"
  by simp

lemma agent_step_inv:
  assumes step: "agent_step backoff a b" and inv: "agent_inv a"
  shows "agent_inv b"
proof -
  have ci: "client_inv (client a)" and tab: "table_inv (client a)"
    and cur: "current_task (client a) = worker_task (worker a)"
    and nz: "\<And>p. worker a = WRun p \<or> worker a = WFin p \<Longrightarrow> p \<noteq> nullptr"
    and st: "\<And>t. callback_thread a = CbStart t \<Longrightarrow> op_id t \<noteq> 0 \<and> map_of (tasks (client a)) (op_id t) = None"
    and sub: "subseq (taken a @ map fst (waiting (sched_of (client a)))) (accepted a)"
    using inv by (auto simp: agent_inv_def client_inv_def)
  have "stream_inv (client b)" using agent_step_stream [OF step] inv by (simp add: agent_inv_def)
  moreover have "client_inv (client b)" by (rule agent_step_client [OF step inv])
  moreover have "current_task (client b) = worker_task (worker b) \<and>
     (\<forall>p. worker b = WRun p \<or> worker b = WFin p \<longrightarrow> p \<noteq> nullptr) \<and>
     (\<forall>t. callback_thread b = CbStart t \<longrightarrow> op_id t \<noteq> 0 \<and> map_of (tasks (client b)) (op_id t) = None) \<and>
     subseq (taken b @ map fst (waiting (sched_of (client b)))) (accepted b)"
    using step
  proof cases
    case (start_valid start t)
    with StartOp_check_InrD [OF start_valid(3)] cur nz sub show ?thesis by auto
  next
    case (start_late t reason c)
    then have "c = client a" by (auto simp: StartOp_commit_def Let_def split: if_splits)
    with start_late cur nz sub show ?thesis by simp
  next
    case (start_commit t c)
    with sched_of_commit [OF tab start_commit(3)] locked_current(4) [OF start_commit(3)] cur nz sub
    show ?thesis by (simp add: sched_start_def flip: append_assoc)
  next
    case (cancel_op i c ops)
    with sched_of_HandleCancel_locked [OF tab cancel_op(3)] locked_current(1) [OF cancel_op(3)] cur nz
      subseq_tail [OF subseq_waiting(1) sub]
    show ?thesis by simp
  next
    case (drain c ops)
    then have "c = (client a)\<lparr>drain_mode := True\<rparr>" by (simp add: HandleShutdown_locked_def)
    with drain cur nz sub show ?thesis by simp
  next
    case (shutdown c ops)
    with sched_of_HandleShutdown_locked [OF tab shutdown(3)] locked_current(2) [OF shutdown(3)] cur nz
      subseq_tail [OF subseq_waiting(3) sub]
    show ?thesis by simp
  next
    case (cb_sent x)
    with cur nz sub show ?thesis by simp
  next
    case (auth_event ev c ops)
    with sched_of_ApplyFeatureUpdate_locked [OF ci auth_event(3)] locked_current_apply [OF tab auth_event(3)]
      cur nz st fresh_shrinks [OF table_shrinks_apply [OF tab auth_event(3)]]
      subseq_tail [OF subseq_waiting(2) sub]
    show ?thesis by simp
  next
    case (worker_take p q)
    have "p \<noteq> nullptr" using table_entry [OF tab table_queued [OF tab]] worker_take by simp
    moreover have "waiting (sched_of (client a)) = ptr_entry (client a) p # map (ptr_entry (client a)) q"
      using worker_take by (simp add: sched_of_def)
    moreover have "fst (ptr_entry (client a) p) = ptr_op (client a) p" by (simp add: ptr_entry_def)
    moreover have "tasks (Worker_take (client a)) = tasks (client a)" "current_task (Worker_take (client a)) = p"
      using worker_take by (simp_all add: Worker_take_def)
    ultimately show ?thesis
      using worker_take sched_of_Worker_take [OF tab worker_take(5)] st sub by (auto simp: sched_take_def)
  next
    case (worker_finish p)
    have "current_task (Worker_finish p (client a)) = nullptr" by (simp add: Worker_finish_def Let_def)
    with worker_finish st fresh_shrinks [OF table_shrinks(4)] sub show ?thesis
      by (simp add: sched_of_Worker_finish sched_finish_def)
  next
    case (closed r status)
    with OnDone_client [OF tab] cur nz subseq_tail [OF subseq_waiting(3) sub] show ?thesis by simp
  next
    case (run_exit)
    with cur nz st sub show ?thesis by simp
  next
    case signal
    with cur nz st sub show ?thesis by simp
  qed (use cur nz st sub in \<open>simp_all add: SendAck_def same_client [OF OnWriteDone_effect(1)]
        same_client [OF Run_retry_effect(1)] same_client [OF Run_connect_effect(1)]\<close>)
  ultimately show ?thesis by (simp add: agent_inv_def)
qed

section \<open>The books balance\<close>

definition waiting_ids :: "callback_client \<Rightarrow> u32 set" where
  "waiting_ids c = fst ` set (waiting (sched_of c))"

definition running_ids :: "agent \<Rightarrow> u32 set" where
  "running_ids a = (case worker a of WRun p \<Rightarrow> {ptr_op (client a) p} | _ \<Rightarrow> {})"

lemma open_op_ids: "open_op a i \<longleftrightarrow> i \<in> waiting_ids (client a) \<union> running_ids a"
  by (auto simp: open_op_def waiting_ids_def running_ids_def split: worker_pc.split)

lemma balance_ids:
  "balance a i = terminals i (enqueued (client a)) + terminals i (cb_out (callback_thread a)) +
     count_list (auth_out a) i + (if i \<in> waiting_ids (client a) \<union> running_ids a then 1 else 0)"
proof -
  have "terminals i (map unauthorized ops) = count_list ops i" for ops
    unfolding unauthorized_def by (rule terminals_errors)
  then show ?thesis by (simp add: balance_def open_op_ids outgoing_def)
qed

lemma ids_disjoint:
  assumes inv: "agent_inv a"
  shows "waiting_ids (client a) \<inter> running_ids a = {}"
proof (cases "worker a")
  case (WRun p)
  have tab: "table_inv (client a)" and cur: "current_task (client a) = p" "p \<noteq> nullptr"
    using inv WRun by (auto simp: agent_inv_def client_inv_def)
  from waiting_distinct(2) [OF tab] cur WRun show ?thesis
    by (auto simp: waiting_ids_def running_ids_def sched_of_def ptr_entry_def)
qed (simp_all add: running_ids_def)

text \<open>Reporting queued operations and dropping exactly these leaves the balance as it was.\<close>

lemma report_balance:
  assumes "distinct ops" and "set ops \<subseteq> W" and "W' = W - set ops" and "W \<inter> R = {}"
  shows "count_list ops i + (if i \<in> W' \<union> R then 1 else 0) = (if i \<in> W \<union> R then 1 else (0::nat))"
  using assms by (auto simp: count_list_distinct)

lemma terminals_cancelled [simp]: "terminals i (map cancelled_error ops) = count_list ops i"
  unfolding cancelled_error_def by (rule terminals_errors)

lemma gate_report:
  assumes "table_inv c" and "s = sched_of c"
    and "ops = map fst (filter (\<lambda>(j, k). \<not> IsTaskAllowed g k) (waiting s))"
  shows "distinct ops" and "set ops \<subseteq> fst ` set (waiting s)"
    and "fst ` set (waiting (sched_gate g s)) = fst ` set (waiting s) - set ops"
proof -
  have d: "distinct (map fst (waiting s))"
    using waiting_distinct(1) [OF assms(1)] by (simp add: assms(2) sched_of_def ptr_entry_def o_def)
  then show "distinct ops" by (simp add: assms(3) distinct_map_filter)
  show "set ops \<subseteq> fst ` set (waiting s)" by (auto simp: assms(3))
  have in_ops: "i \<in> set ops \<longleftrightarrow> \<not> IsTaskAllowed g k" if "(i, k) \<in> set (waiting s)" for i k
  proof
    assume "i \<in> set ops"
    then obtain k' where "(i, k') \<in> set (waiting s)" "\<not> IsTaskAllowed g k'" by (auto simp: assms(3))
    with eq_key_imp_eq_value [OF d that] show "\<not> IsTaskAllowed g k" by blast
  next
    assume "\<not> IsTaskAllowed g k"
    with that have "(i, k) \<in> set (filter (\<lambda>(j, k). \<not> IsTaskAllowed g k) (waiting s))" by simp
    then show "i \<in> set ops" unfolding assms(3) by force
  qed
  show "fst ` set (waiting (sched_gate g s)) = fst ` set (waiting s) - set ops"
    by (auto simp: sched_gate_def in_ops)
qed

text \<open>
  How a step changes the balance: by one for an operation it files, not at all otherwise; only a
  shutdown can add to it.
\<close>

definition balanced_step :: "agent \<Rightarrow> agent \<Rightarrow> bool" where
  "balanced_step a b \<longleftrightarrow>
     (\<forall>i. balance b i + count_list (accepted a) i = balance a i + count_list (accepted b) i) \<and>
     shut b = shut a"

lemma balanced_same:
  assumes "waiting_ids (client b) = waiting_ids (client a)" "running_ids b = running_ids a"
    and "accepted b = accepted a" "shut b = shut a"
    and "\<And>i. terminals i (enqueued (client b)) + terminals i (cb_out (callback_thread b)) + count_list (auth_out b) i
        = terminals i (enqueued (client a)) + terminals i (cb_out (callback_thread a)) + count_list (auth_out a) i"
  shows "balanced_step a b"
  using assms by (simp add: balanced_step_def balance_ids)

lemma balanced_report:
  assumes inv: "agent_inv a" and "running_ids b = running_ids a" "accepted b = accepted a" "shut b = shut a"
    and ops: "distinct ops" "set ops \<subseteq> waiting_ids (client a)"
      "waiting_ids (client b) = waiting_ids (client a) - set ops"
    and msg: "\<And>i. terminals i (enqueued (client b)) + terminals i (cb_out (callback_thread b)) + count_list (auth_out b) i
        = terminals i (enqueued (client a)) + terminals i (cb_out (callback_thread a)) + count_list (auth_out a) i
          + count_list ops i"
  shows "balanced_step a b"
  using report_balance [OF ops ids_disjoint [OF inv]] msg assms(2-4)
  by (simp add: balanced_step_def balance_ids add.assoc)

lemma waiting_ids_simps [simp]:
  "waiting_ids (EnqueueWrite m c) = waiting_ids c"
  "waiting_ids (set_task_state st p c) = waiting_ids c"
  by (simp_all add: waiting_ids_def)

lemma waiting_sched_cancel: "fst ` set (waiting (sched_cancel i s)) = fst ` set (waiting s) - {i}"
  by (force simp: sched_cancel_def)

lemma Worker_finish_frame [simp]: "enqueued (Worker_finish p c) = enqueued c"
  by (simp add: Worker_finish_def Let_def)

lemma running_ids_cong:
  "worker b = worker a \<Longrightarrow> ptr_op (client b) = ptr_op (client a) \<Longrightarrow> running_ids b = running_ids a"
  by (simp add: running_ids_def split: worker_pc.split)

lemma locked_ptr_op:
  "HandleCancel_locked i c = (d, ops) \<Longrightarrow> ptr_op d = ptr_op c"
  "HandleShutdown_locked x c = (d, ops) \<Longrightarrow> ptr_op d = ptr_op c"
  by (auto simp: HandleCancel_locked_def HandleShutdown_locked_def Let_def ptr_op_def fun_eq_iff cancel_task_def
        split: option.splits if_splits)

lemma locked_ptr_op_apply:
  "table_inv c \<Longrightarrow> ApplyFeatureUpdate_locked g c = (d, ops) \<Longrightarrow> ptr_op d = ptr_op c"
  using ApplyFeatureUpdate_locked_char(4) [of c g d ops]
  by (cases "active_features c = g") (auto simp: ApplyFeatureUpdate_locked_def ptr_op_def fun_eq_iff)

lemma balanced_commit:
  assumes inv: "agent_inv a" and pc: "callback_thread a = CbStart t"
    and com: "StartOp_commit t (client a) = (None, c)"
  shows "balanced_step a (a\<lparr>client := c, callback_thread := CbAck (op_id t) True '''',
      accepted := accepted a @ [op_id t]\<rparr>)"
proof -
  let ?b = "a\<lparr>client := c, callback_thread := CbAck (op_id t) True '''', accepted := accepted a @ [op_id t]\<rparr>"
  have tab: "table_inv (client a)" and fresh: "map_of (tasks (client a)) (op_id t) = None"
    using inv pc by (auto simp: agent_inv_def client_inv_def)
  note ch = sched_of_commit [OF tab com]
  have W: "waiting_ids c = insert (op_id t) (waiting_ids (client a))"
    by (simp add: waiting_ids_def ch sched_start_def)
  have R: "running_ids ?b = running_ids a"
  proof (cases "worker a")
    case (WRun p)
    then have p: "current_task (client a) = p" "p \<noteq> nullptr" using inv by (auto simp: agent_inv_def)
    then have "p < next_ptr (client a)"
      using table_entry [OF tab table_current [OF tab]] by simp
    then have "ptr_op c p = ptr_op (client a) p"
      using com by (auto simp: StartOp_commit_def Let_def ptr_op_def split: if_splits)
    with WRun show ?thesis by (simp add: running_ids_def)
  qed (simp_all add: running_ids_def)
  have new: "op_id t \<notin> waiting_ids (client a)" "op_id t \<notin> running_ids a"
    using fresh inv unfolding table_lookup [OF tab]
    by (auto simp: sched_ops_def waiting_ids_def running_ids_def agent_inv_def sched_of_def ptr_entry_def
          split: worker_pc.splits if_splits)
  show ?thesis
    using new by (auto simp: balanced_step_def balance_ids W R ch pc)
qed

lemma balanced_take:
  assumes inv: "agent_inv a" and w: "worker a = WWait" and q: "task_queue (client a) = p # q"
  shows "balanced_step a (a\<lparr>client := Worker_take (client a), worker := WRun p,
      taken := taken a @ [ptr_op (client a) p]\<rparr>)"
proof -
  let ?b = "a\<lparr>client := Worker_take (client a), worker := WRun p, taken := taken a @ [ptr_op (client a) p]\<rparr>"
  have tab: "table_inv (client a)" using inv by (simp add: agent_inv_def client_inv_def)
  have op: "ptr_op (Worker_take (client a)) = ptr_op (client a)"
    by (simp add: Worker_take_def ptr_op_def fun_eq_iff)
  have "waiting_ids (client a) = insert (ptr_op (client a) p) (waiting_ids (Worker_take (client a)))"
    using q by (simp add: waiting_ids_def sched_of_Worker_take [OF tab q] sched_take_def)
       (simp add: sched_of_def ptr_entry_def)
  then have "waiting_ids (client ?b) \<union> running_ids ?b = waiting_ids (client a) \<union> running_ids a"
    using w by (auto simp: running_ids_def op)
  then show ?thesis by (simp add: balanced_step_def balance_ids Worker_take_def)
qed

lemma balanced_end:
  assumes inv: "agent_inv a" and w: "worker a = WRun p" and m: "is_terminal_for (ptr_op (client a) p) m"
  shows "balanced_step a (a\<lparr>client := EnqueueWrite m (set_task_state st p (client a)), worker := WFin p\<rparr>)"
proof -
  have "is_terminal_for i m \<longleftrightarrow> i = ptr_op (client a) p" for i using m by (cases m) auto
  moreover have "ptr_op (client a) p \<notin> waiting_ids (client a)"
    using ids_disjoint [OF inv] w by (auto simp: running_ids_def)
  ultimately show ?thesis
    using w by (auto simp: balanced_step_def balance_ids running_ids_def)
qed

lemma agent_step_balance:
  assumes step: "agent_step backoff a b" and inv: "agent_inv a"
  shows "balanced_step a b \<or> shut b \<and> accepted b = accepted a \<and> (\<forall>i. balance a i \<le> balance b i)"
proof -
  have ci: "client_inv (client a)" and tab: "table_inv (client a)"
    using inv by (auto simp: agent_inv_def client_inv_def)
  from step show ?thesis
  proof cases
    case (start_late t reason c)
    then have "c = client a" by (auto simp: StartOp_commit_def Let_def split: if_splits)
    with start_late show ?thesis by (auto intro!: balanced_same running_ids_cong)
  next
    case (start_commit t c)
    then show ?thesis using balanced_commit [OF inv] by simp
  next
    case (cancel_op i c ops)
    note ch = sched_of_HandleCancel_locked [OF tab cancel_op(3)]
    have "balanced_step a b"
      by (rule balanced_report [OF inv, where ops = ops])
         (use cancel_op ch locked_ptr_op(1) [OF cancel_op(3)] in
           \<open>auto simp: waiting_ids_def waiting_sched_cancel intro!: running_ids_cong split: if_splits\<close>)
    then show ?thesis ..
  next
    case (shutdown c ops)
    note ch = sched_of_HandleShutdown_locked [OF tab shutdown(3)]
    obtain rest where "ops = map fst (waiting (sched_of (client a))) @ rest" using ch(3) by blast
    then have "set (map fst (waiting (sched_of (client a)))) \<subseteq> set ops" by auto
    then have "i \<in> waiting_ids (client a) \<Longrightarrow> 1 \<le> count_list ops i" for i
      using count_list_0_iff [of ops i] by (force simp: waiting_ids_def Suc_le_eq)
    moreover have "running_ids b = running_ids a" "waiting_ids c = {}"
      using shutdown ch locked_ptr_op(2) [OF shutdown(3)]
      by (auto simp: waiting_ids_def sched_clear_def intro!: running_ids_cong)
    ultimately have "balance a i \<le> balance b i" for i
      using shutdown ch(2) by (simp add: balance_ids)
    then show ?thesis using shutdown by simp
  next
    case (auth_event ev c ops)
    note ch = sched_of_ApplyFeatureUpdate_locked [OF ci auth_event(3)]
    note rep = gate_report [OF tab refl ch(2)]
    have "balanced_step a b"
      by (rule balanced_report [OF inv, where ops = ops])
         (use auth_event ch rep locked_ptr_op_apply [OF tab auth_event(3)] in
           \<open>auto simp: waiting_ids_def intro!: running_ids_cong\<close>)
    then show ?thesis ..
  next
    case (worker_take p q)
    then show ?thesis using balanced_take [OF inv] by simp
  next
    case (task_end p m st)
    then show ?thesis using balanced_end [OF inv] by simp
  next
    case (worker_finish p)
    then show ?thesis
      by (intro disjI1 balanced_same)
         (simp_all add: waiting_ids_def sched_of_Worker_finish sched_finish_def running_ids_def)
  next
    case (closed r status)
    obtain ops where ops: "enqueued (Reactor_OnDone client_callbacks r status (client a)) =
            enqueued (client a) @ map (\<lambda>i. Error i ''CANCELLED'' ''stream closed'') ops"
        "distinct ops" "set ops = waiting_ids (client a)"
      using OnDone_client(4) [OF tab, of r status] by (auto simp: waiting_ids_def)
    have "balanced_step a b"
      by (rule balanced_report [OF inv, where ops = ops])
         (use closed ops OnDone_client [OF tab, of r status] in
           \<open>auto simp: waiting_ids_def sched_clear_def intro!: running_ids_cong\<close>)
    then show ?thesis ..
  next
    case (drain c ops)
    then have "c = (client a)\<lparr>drain_mode := True\<rparr>" by (simp add: HandleShutdown_locked_def)
    with drain show ?thesis
      by (intro disjI1 balanced_same) (auto simp: waiting_ids_def intro!: running_ids_cong)
  qed (auto simp: SendAck_def MakePong_def MakeHello_def unauthorized_def waiting_ids_def running_ids_def
        same_client [OF OnWriteDone_effect(1)] same_client [OF Run_retry_effect(1)]
        same_client [OF Run_connect_effect(1)] OnWriteDone_effect Run_retry_effect Run_connect_effect
        intro!: balanced_same split: worker_pc.split)
qed

lemma accepts_errors [simp]: "accepts i (map (\<lambda>j. Error j co ms) ops) = 0"
  by (induction ops) auto

lemma accepts_neutral [simp]:
  "accepts i (map cancelled_error ops) = 0" "accepts i (map unauthorized ops) = 0"
  unfolding cancelled_error_def unauthorized_def by (rule accepts_errors)+

lemma outgoing_accepts: "accepts i (outgoing a) =
    accepts i (enqueued (client a)) + accepts i (cb_out (callback_thread a))"
  by (simp add: outgoing_def)

lemma locked_enqueued:
  "HandleCancel_locked j c = (d, ops) \<Longrightarrow> enqueued d = enqueued c"
  "HandleShutdown_locked x c = (d, ops) \<Longrightarrow> enqueued d = enqueued c"
  "StartOp_commit t c = (r, d) \<Longrightarrow> enqueued d = enqueued c"
  "ApplyFeatureUpdate_locked g c = (d, ops) \<Longrightarrow> enqueued d = enqueued c"
proof -
  have e: "enqueued d = enqueued c"
    if "stream_client.truncate d = stream_client.truncate c" for c d :: callback_client
    using that by (simp add: stream_client.defs)
  show "HandleCancel_locked j c = (d, ops) \<Longrightarrow> enqueued d = enqueued c"
    "HandleShutdown_locked x c = (d, ops) \<Longrightarrow> enqueued d = enqueued c"
    "StartOp_commit t c = (r, d) \<Longrightarrow> enqueued d = enqueued c"
    "ApplyFeatureUpdate_locked g c = (d, ops) \<Longrightarrow> enqueued d = enqueued c"
    by (auto intro: e locked_truncate truncate_apply)
qed

lemma agent_step_accepts:
  assumes step: "agent_step backoff a b" and inv: "agent_inv a"
  shows "accepts i (outgoing b) + count_list (accepted a) i = accepts i (outgoing a) + count_list (accepted b) i"
  using step
proof cases
  case (task_end p m st)
  then have "\<not> is_accept_for i m" by (cases m) auto
  with task_end show ?thesis by (simp add: outgoing_accepts)
next
  case (worker_take p q)
  then show ?thesis by (simp add: outgoing_accepts Worker_take_def)
next
  case (closed r status)
  have "table_inv (client a)" using inv by (simp add: agent_inv_def client_inv_def)
  from OnDone_client(4) [OF this, of r status] closed show ?thesis by (auto simp: outgoing_accepts)
qed (auto simp: outgoing_accepts SendAck_def MakePong_def MakeHello_def unauthorized_def
      OnWriteDone_effect Run_retry_effect Run_connect_effect dest: locked_enqueued)

lemma agent_step_books:
  assumes "agent_step backoff a b" and "agent_inv a" and "books_inv a"
  shows "books_inv b"
proof -
  have a1: "count_list (accepted a) i \<le> balance a i"
    and a2: "\<not> shut a \<Longrightarrow> balance a i = count_list (accepted a) i"
    and a3: "accepts i (outgoing a) = count_list (accepted a) i" for i
    using assms(3) by (auto simp: books_inv_def)
  have "accepts i (outgoing b) = count_list (accepted b) i" for i
    using agent_step_accepts [OF assms(1,2), of i] a3 [of i] by simp
  moreover have "(\<forall>i. count_list (accepted b) i \<le> balance b i) \<and>
      (\<not> shut b \<longrightarrow> (\<forall>i. balance b i = count_list (accepted b) i))"
    using agent_step_balance [OF assms(1,2)]
  proof
    assume bal: "balanced_step a b"
    then have "balance b i + count_list (accepted a) i = balance a i + count_list (accepted b) i" for i
      by (simp add: balanced_step_def)
    then show ?thesis
      using a1 a2 bal by (metis add.commute add_le_imp_le_left add_left_cancel add_mono_thms_linordered_semiring(3) balanced_step_def)
  next
    assume "shut b \<and> accepted b = accepted a \<and> (\<forall>i. balance a i \<le> balance b i)"
    then show ?thesis using a1 by (metis le_trans)
  qed
  ultimately show ?thesis by (simp add: books_inv_def)
qed

section \<open>Reachable states\<close>

definition fresh_client :: "callback_client \<Rightarrow> bool" where
  "fresh_client c \<longleftrightarrow> stream_inv c \<and> task_queue c = [] \<and> tasks c = [] \<and> current_task c = nullptr \<and>
     0 < next_ptr c \<and> enqueued c = [] \<and> io_log c = []"

lemma fresh_client_apply: "fresh_client c \<Longrightarrow> fresh_client (ApplyFeatureUpdate g c)"
proof -
  assume f: "fresh_client c"
  then have tab: "table_inv c" by (simp add: fresh_client_def table_inv_def)
  obtain d ops where d: "ApplyFeatureUpdate_locked g c = (d, ops)" by fastforce
  show ?thesis
  proof (cases "active_features c = g")
    case True
    with f show ?thesis by (simp add: ApplyFeatureUpdate_def ApplyFeatureUpdate_locked_def)
  next
    case False
    note ch = ApplyFeatureUpdate_locked_char [OF tab False d]
    have t: "stream_client.truncate d = stream_client.truncate c" by (rule truncate_apply [OF d])
    then have "io_log d = io_log c" by (simp add: stream_client.defs)
    with f ch d stream_inv_truncate [OF t] show ?thesis
      by (simp add: fresh_client_def ApplyFeatureUpdate_def)
  qed
qed

lemma new_client_fresh: "fresh_client (new_ControlCallbackClient i opts f tmp ev)"
proof -
  have base: "fresh_client \<lparr>s_running = False, attempt = 0, pending_writes = [], current_write = None,
       write_in_flight = False, reactor = None, next_reactor = 0, done_status = (\<lambda>_. None), io_log = [],
       enqueued = [], slept = [], agent_id = i, log_options = o2, env_run = True, c_running = False,
       heap = h, next_ptr = 1, task_queue = [], tasks = [], current_task = nullptr, drain_mode = False,
       stop_worker = False, requested_features = f, active_features = f\<rparr>" for o2 h
    by (simp add: fresh_client_def stream_inv_def)
  show ?thesis
    unfolding new_ControlCallbackClient_def Let_def OnAuthStateChanged_def
    by (cases ev) (simp_all only: option.case, (rule fresh_client_apply [OF base])+)
qed

lemma initial_agent_inv: "fresh_client c \<Longrightarrow> agent_inv (initial_agent c) \<and> books_inv (initial_agent c)"
proof -
  assume f: "fresh_client c"
  then have "stream_inv (c\<lparr>c_running := True\<rparr>)" by (simp add: fresh_client_def stream_inv_worker)
  with f show ?thesis
    by (auto simp: fresh_client_def agent_inv_def books_inv_def initial_agent_def Run_begin_def client_inv_def
          table_inv_def gate_inv_def balance_def open_op_def outgoing_def sched_of_def)
qed

lemma agent_reach_inv:
  assumes "agent_reach backoff (initial_agent c) a" and "fresh_client c"
  shows "agent_inv a \<and> books_inv a"
  using assms(1)
proof (induction rule: rtranclp_induct)
  case base
  show ?case by (rule initial_agent_inv [OF assms(2)])
next
  case (step y z)
  then show ?case using agent_step_inv agent_step_books by blast
qed

end
