(* ===== verification/Agent_Properties.thy ===== *)
theory Agent_Properties
  imports Agent_System
begin

text \<open>
  The promises of the control client, stated over its handlers and over every interleaving of its
  threads, with the concrete runs that show them at work.
\<close>

section \<open>A concrete run\<close>

text \<open>
  An agent with default options that receives one \<open>exec\<close> operation. \<open>race\<close> follows the worker
  overtaking the callback thread: the operation is filed, run to its end, and acknowledged last.
\<close>

definition demo_client :: callback_client where
  "demo_client = new_ControlCallbackClient ''agent'' default_LogOptions default_FeatureToggles None None"

definition demo_spec :: ExecSpec where
  "demo_spec = \<lparr>cmd = ''ip'', ex_max_output_bytes = 0\<rparr>"

definition demo_start :: StartOp where
  "demo_start = \<lparr>meta_op_id = 7, start_spec = ExecS demo_spec\<rparr>"

definition demo_task :: Task where
  "demo_task = make_ExecTask 7 demo_spec"

definition demo_trailer :: AgentToServer where
  "demo_trailer = Eof 7 (ExecT \<lparr>exit_code = 0, exit_note = ''interfaces collected''\<rparr>)"

definition no_backoff :: "nat \<Rightarrow> int" where
  "no_backoff n = 0"

definition demo_queued :: callback_client where
  "demo_queued = snd (StartOp_commit demo_task (Run_begin (demo_client\<lparr>c_running := True\<rparr>)))"

definition demo_filed :: agent where
  "demo_filed = (initial_agent demo_client)\<lparr>client := demo_queued,
     callback_thread := CbAck 7 True '''', accepted := [7]\<rparr>"

definition demo_running :: agent where
  "demo_running = demo_filed\<lparr>client := Worker_take demo_queued, worker := WRun 1, taken := [7]\<rparr>"

definition demo_ended :: agent where
  "demo_ended = demo_running\<lparr>client := EnqueueWrite demo_trailer (set_task_state kCompleted 1 (Worker_take demo_queued)),
     worker := WFin 1\<rparr>"

definition race :: agent where
  "race = demo_ended\<lparr>client := SendAck 7 True '''' (client demo_ended), callback_thread := CbIdle\<rparr>"

lemma demo_client_eq:
  "demo_client = \<lparr>s_running = False, attempt = 0, pending_writes = [], current_write = None,
     write_in_flight = False, reactor = None, next_reactor = 0, done_status = (\<lambda>_. None), io_log = [],
     enqueued = [], slept = [], agent_id = ''agent'', log_options = default_LogOptions, env_run = True,
     c_running = False, heap = (\<lambda>_. make_ExecTask 0 \<lparr>cmd = '''', ex_max_output_bytes = 0\<rparr>), next_ptr = 1,
     task_queue = [], tasks = [], current_task = nullptr, drain_mode = False, stop_worker = False,
     requested_features = default_FeatureToggles, active_features = default_FeatureToggles\<rparr>"
  by (simp add: demo_client_def new_ControlCallbackClient_def ApplyFeatureUpdate_def
        ApplyFeatureUpdate_locked_def default_LogOptions_def Let_def)

lemma demo_commit: "StartOp_commit demo_task (Run_begin (demo_client\<lparr>c_running := True\<rparr>)) = (None, demo_queued)"
  by (simp add: demo_queued_def StartOp_commit_def Let_def Run_begin_def demo_client_eq demo_task_def
        make_ExecTask_def new_Task_def IsTaskAllowed_def default_FeatureToggles_def)

lemma demo_check: "StartOp_check demo_start (Run_begin (demo_client\<lparr>c_running := True\<rparr>)) = Inr demo_task"
  by (simp add: StartOp_check_def Let_def demo_start_def Run_begin_def demo_client_eq demo_task_def
        default_FeatureToggles_def)

lemma demo_queued_facts:
  "c_running demo_queued" "task_queue demo_queued = [1]" "current_task demo_queued = nullptr"
  "ptr_op demo_queued 1 = 7" "enqueued demo_queued = []" "\<not> stop_worker demo_queued"
  "kind (heap demo_queued 1) = kExec" "tasks demo_queued = [(7, 1)]" "active_features demo_queued = default_FeatureToggles"
  "requested_features demo_queued = default_FeatureToggles" "drain_mode demo_queued = False"
  by (simp_all add: demo_queued_def StartOp_commit_def Let_def Run_begin_def demo_client_eq demo_task_def
        make_ExecTask_def new_Task_def IsTaskAllowed_def default_FeatureToggles_def ptr_op_def)

lemma demo_filed_reach: "agent_reach no_backoff (initial_agent demo_client) demo_filed"
proof -
  let ?a = "initial_agent demo_client"
  have "agent_step no_backoff ?a (?a\<lparr>callback_thread := CbStart demo_task\<rparr>)"
    by (rule agent_step.start_valid [where start = demo_start])
       (simp_all add: initial_agent_def demo_check StartOp_validate_def demo_task_def make_ExecTask_def
          new_Task_def ExecTask_Validate_def demo_spec_def exec_cmd_supported_def)
  moreover have "agent_step no_backoff (?a\<lparr>callback_thread := CbStart demo_task\<rparr>) demo_filed"
    using agent_step.start_commit [of "?a\<lparr>callback_thread := CbStart demo_task\<rparr>" demo_task demo_queued no_backoff]
    by (simp add: demo_filed_def initial_agent_def demo_commit) (simp add: demo_task_def make_ExecTask_def new_Task_def)
  ultimately show ?thesis by (meson converse_rtranclp_into_rtranclp r_into_rtranclp)
qed

lemma demo_running_reach: "agent_reach no_backoff (initial_agent demo_client) demo_running"
proof -
  have "agent_step no_backoff demo_filed (demo_filed\<lparr>worker := WWait\<rparr>)"
    by (rule agent_step.worker_loop) (simp_all add: demo_filed_def initial_agent_def demo_queued_facts)
  moreover have "agent_step no_backoff (demo_filed\<lparr>worker := WWait\<rparr>) demo_running"
    using agent_step.worker_take [of "demo_filed\<lparr>worker := WWait\<rparr>" 1 "[]" no_backoff]
    by (simp add: demo_filed_def demo_running_def initial_agent_def demo_queued_facts Worker_ready_def Worker_break_def del: One_nat_def)
  ultimately show ?thesis
    using demo_filed_reach by (meson rtranclp.rtrancl_into_rtrancl)
qed

lemma race_reach: "agent_reach no_backoff (initial_agent demo_client) race"
proof -
  have op: "ptr_op (client demo_running) 1 = 7"
    by (simp add: demo_running_def Worker_take_def ptr_op_def del: One_nat_def flip: demo_queued_facts(4))
  have "agent_step no_backoff demo_running demo_ended"
    using agent_step.task_end [of demo_running 1 demo_trailer no_backoff kCompleted] op
    by (simp add: demo_running_def demo_ended_def demo_trailer_def)
  moreover have "agent_step no_backoff demo_ended race"
    using agent_step.ack [of demo_ended 7 True "''''" no_backoff]
    by (simp add: race_def) (simp add: demo_ended_def demo_running_def demo_filed_def)
  ultimately show ?thesis
    using demo_running_reach by (meson rtranclp.rtrancl_into_rtrancl)
qed

lemma race_sent: "enqueued (client race) = [demo_trailer, Ack 7 True '''']"
  by (simp add: race_def demo_ended_def demo_running_def SendAck_def Worker_take_def demo_queued_facts)

lemma demo_fresh: "fresh_client demo_client"
  unfolding demo_client_def by (rule new_client_fresh)

lemma client_inv_demo_queued: "client_inv demo_queued"
  using agent_reach_inv [OF demo_filed_reach demo_fresh] by (simp add: agent_inv_def demo_filed_def)

section \<open>Reachable states\<close>

text \<open>The states of an agent built by the constructor, in any interleaving of its threads.\<close>

definition reachable :: "(nat \<Rightarrow> int) \<Rightarrow> agent \<Rightarrow> bool" where
  "reachable backoff a \<longleftrightarrow> (\<exists>i opts features tmp ev.
     agent_reach backoff (initial_agent (new_ControlCallbackClient i opts features tmp ev)) a)"

lemma reachable_inv:
  assumes "reachable backoff a"
  shows "agent_inv a" "books_inv a" "client_inv (client a)" "stream_inv (client a)" "table_inv (client a)"
    "gate_inv (client a)"
  using assms agent_reach_inv [OF _ new_client_fresh]
  by (auto simp: reachable_def agent_inv_def client_inv_def)

lemma reachable_demo:
  "reachable no_backoff demo_filed" "reachable no_backoff demo_running" "reachable no_backoff race"
  using demo_filed_reach demo_running_reach race_reach
  unfolding reachable_def demo_client_def by blast+

section \<open>Every run of the agent\<close>

text \<open>
  C1. Exact accounting. As long as no shutdown without drain has been handled, every operation
  identifier has, at every moment and whatever the threads interleave, exactly as many positive
  acknowledgements among the messages sent or about to be sent as it was accepted, and as many
  trailers and errors as it was accepted, except for the one still owed while the operation is
  queued or running. So no accepted operation is lost and none is reported twice, across
  cancellation, authorization changes, stream closures and reconnects.
\<close>

theorem every_op_reported_once:
  assumes "reachable backoff a" and "\<not> shut a"
  shows "terminals i (outgoing a) + (if open_op a i then 1 else 0) = count_list (accepted a) i \<and>
         accepts i (outgoing a) = count_list (accepted a) i"
  using reachable_inv(2) [OF assms(1)] assms(2) unfolding books_inv_def balance_def by metis

lemma demo_filed_facts:
  "\<not> shut demo_filed" "accepted demo_filed = [7]" "\<not> shut race" "accepted race = [7]"
  by (simp_all add: demo_filed_def initial_agent_def race_def demo_ended_def demo_running_def)

theorem every_op_reported_once_witness:
  "reachable no_backoff race \<and> \<not> shut race \<and>
   terminals 7 (outgoing race) + (if open_op race 7 then 1 else 0) = 1 \<and> accepts 7 (outgoing race) = 1"
  using every_op_reported_once [OF reachable_demo(3), of 7] by (simp add: demo_filed_facts reachable_demo)

text \<open>
  C2. No run loses an operation, not even one with a shutdown: every acceptance is matched by a
  trailer or an error, sent or about to be sent, or by the operation still being queued or running.
\<close>

theorem no_accepted_op_lost:
  assumes "reachable backoff a"
  shows "count_list (accepted a) i \<le> terminals i (outgoing a) + (if open_op a i then 1 else 0)"
  using reachable_inv(2) [OF assms] unfolding books_inv_def balance_def by metis

theorem no_accepted_op_lost_witness:
  "reachable no_backoff demo_filed \<and>
   1 \<le> terminals 7 (outgoing demo_filed) + (if open_op demo_filed 7 then 1 else (0::nat))"
  using no_accepted_op_lost [OF reachable_demo(1), of 7] by (simp add: demo_filed_facts reachable_demo)

text \<open>
  C3. Tasks run one at a time and in the order of their acceptance: the operations started so far
  followed by those still queued are a subsequence of the accepted ones (cancellation and the gate
  only leave operations out), the identifiers of the queued and the running operation are pairwise
  different, and the table holds exactly these.
\<close>

theorem serial_in_order:
  assumes "reachable backoff a"
  shows "subseq (taken a @ map (ptr_op (client a)) (task_queue (client a))) (accepted a) \<and>
         distinct (map (ptr_op (client a)) (task_queue (client a))) \<and>
         (current_task (client a) \<noteq> nullptr \<longrightarrow>
            ptr_op (client a) (current_task (client a)) \<notin> ptr_op (client a) ` set (task_queue (client a))) \<and>
         fst ` set (tasks (client a)) =
           ptr_op (client a) ` (set (task_queue (client a)) \<union> ({current_task (client a)} - {nullptr}))"
proof -
  note inv = reachable_inv [OF assms]
  have w: "map fst (waiting (sched_of (client a))) = map (ptr_op (client a)) (task_queue (client a))"
    by (simp add: sched_of_def ptr_entry_def)
  have "fst ` set (tasks (client a)) =
           ptr_op (client a) ` (set (task_queue (client a)) \<union> ({current_task (client a)} - {nullptr}))"
    using table_ops [OF inv(5)] by (auto simp: sched_ops_def sched_of_def ptr_entry_def image_image split: if_splits)
  with inv(1) waiting_distinct [OF inv(5)] w show ?thesis by (simp add: agent_inv_def)
qed

theorem serial_in_order_witness:
  "reachable no_backoff demo_running \<and> current_task (client demo_running) \<noteq> nullptr \<and>
   subseq (taken demo_running @ map (ptr_op (client demo_running)) (task_queue (client demo_running))) [7]"
  using serial_in_order [OF reachable_demo(2)]
  by (simp add: reachable_demo) (simp add: demo_running_def demo_filed_def initial_agent_def Worker_take_def demo_queued_facts)

text \<open>
  C4. The authorization gate holds in every run: no operation of a kind the active features
  exclude is ever in the queue, and if the running operation is of such a kind it has been asked
  to cancel.
\<close>

theorem gate_holds:
  assumes "reachable backoff a"
  shows "(\<forall>p \<in> set (task_queue (client a)). IsTaskAllowed (active_features (client a)) (kind (heap (client a) p))) \<and>
         (current_task (client a) \<noteq> nullptr \<longrightarrow>
            IsTaskAllowed (active_features (client a)) (kind (heap (client a) (current_task (client a)))) \<or>
            cancel_requested (heap (client a) (current_task (client a))))"
  using reachable_inv(6) [OF assms] by (auto simp: gate_inv_def ptr_allowed_def)

theorem gate_holds_witness:
  "reachable no_backoff demo_running \<and> current_task (client demo_running) \<noteq> nullptr \<and>
   (IsTaskAllowed (active_features (client demo_running)) (kind (heap (client demo_running) 1)) \<or>
    cancel_requested (heap (client demo_running) 1))"
  using gate_holds [OF reachable_demo(2)]
  by (simp add: reachable_demo) (simp add: demo_running_def demo_filed_def initial_agent_def Worker_take_def demo_queued_facts)



text \<open>
  The acknowledgement does not always come first: a run exists in which the trailer of an
  operation is sent before its positive acknowledgement.
\<close>

lemma ack_may_come_last:
  "\<exists>a. reachable no_backoff a \<and>
     enqueued (client a) = [Eof 7 (ExecT \<lparr>exit_code = 0, exit_note = ''interfaces collected''\<rparr>), Ack 7 True '''']"
  using reachable_demo(3) race_sent unfolding demo_trailer_def by blast

section \<open>Each server message and event, one at a time\<close>

text \<open>
  When a start request is acceptable: it names a new operation, the agent is not draining, both
  the features in force and the configured ones include its kind, and its parameters are valid.
\<close>

fun spec_kind :: "OpSpec \<Rightarrow> Kind option" where
  "spec_kind (LogFilterS spec) = Some kLogFilter"
| "spec_kind (PcapS spec) = Some kPcap"
| "spec_kind (ExecS spec) = Some kExec"
| "spec_kind SPEC_NOT_SET = None"

fun spec_valid :: "LogOptions \<Rightarrow> OpSpec \<Rightarrow> bool" where
  "spec_valid opts (LogFilterS spec) \<longleftrightarrow>
     base_path opts \<noteq> '''' \<and> (include_rotations opts \<longrightarrow> rotation_scan_depth opts \<noteq> 0) \<and> chunk_size opts \<noteq> 0"
| "spec_valid opts (ExecS spec) \<longleftrightarrow> cmd spec = '''' \<or> exec_cmd_supported (cmd spec)"
| "spec_valid opts _ \<longleftrightarrow> True"

definition acceptable :: "StartOp \<Rightarrow> callback_client \<Rightarrow> bool" where
  "acceptable start c \<longleftrightarrow>
     meta_op_id start \<noteq> 0 \<and> \<not> drain_mode c \<and> meta_op_id start \<notin> sched_ops (sched_of c) \<and>
     (case spec_kind (start_spec start) of
        None \<Rightarrow> False
      | Some k \<Rightarrow> IsTaskAllowed (active_features c) k \<and> IsTaskAllowed ((requested_features c)\<lparr>enabled := True\<rparr>) k) \<and>
     spec_valid (log_options c) (start_spec start)"

lemma decision_acceptable:
  assumes tab: "table_inv c"
  shows "acceptable start c \<longleftrightarrow> (\<exists>t. StartOp_decision start c = Inr t)"
  using table_lookup [OF tab, of "meta_op_id start"]
  by (cases "start_spec start")
     (auto simp: acceptable_def StartOp_decision_def StartOp_check_def StartOp_validate_def Let_def
        IsTaskAllowed_def make_LogFilterTask_def make_PcapTask_def make_ExecTask_def new_Task_def
        LogFilterTask_Validate_def ExecTask_Validate_def split: if_splits)

lemma decision_kind:
  "StartOp_decision start c = Inr t \<Longrightarrow> op_id t = meta_op_id start \<and> spec_kind (start_spec start) = Some (kind t)"
  by (auto simp: StartOp_decision_def StartOp_check_def Let_def make_LogFilterTask_def make_PcapTask_def
        make_ExecTask_def new_Task_def split: if_splits OpSpec.splits sum.splits option.splits)

lemma decision_reason: "StartOp_decision start c = Inl reason \<Longrightarrow> reason \<noteq> ''''"
  by (auto simp: StartOp_decision_def StartOp_check_def StartOp_validate_def Let_def
        kAuthorizationDisabledReason_def kFeaturesDisabledReason_def kLogFilterDisabledReason_def
        kPcapDisabledReason_def kExecDisabledReason_def
        split: if_splits OpSpec.splits sum.splits option.splits prod.splits bool.splits)

lemma HandleStartOp_unacceptable:
  assumes "table_inv c" and "\<not> acceptable start c"
  shows "\<exists>reason. reason \<noteq> '''' \<and> HandleStartOp start c = EnqueueWrite (Ack (meta_op_id start) False reason) c"
proof -
  obtain reason where "StartOp_decision start c = Inl reason"
    using assms decision_acceptable [OF assms(1)] by (metis sumE)
  then show ?thesis using HandleStartOp_reject decision_reason by blast
qed

text \<open>
  C6. A start request that is acceptable is appended to the scheduler's queue and acknowledged
  once, positively; any other is answered by one refusal with a non-empty reason and leaves the
  client unchanged but for that message. Either way the invariant is kept.
\<close>

theorem start_op_decides:
  assumes "client_inv c"
  shows "client_inv (HandleStartOp start c) \<and>
    (if acceptable start c
     then (\<exists>k. spec_kind (start_spec start) = Some k \<and>
             sched_of (HandleStartOp start c) = sched_start (meta_op_id start, k) (sched_of c)) \<and>
          enqueued (HandleStartOp start c) = enqueued c @ [Ack (meta_op_id start) True '''']
     else \<exists>reason. reason \<noteq> '''' \<and>
          HandleStartOp start c = EnqueueWrite (Ack (meta_op_id start) False reason) c)"
proof (cases "StartOp_decision start c")
  case (Inl reason)
  have tab: "table_inv c" using assms by (simp add: client_inv_def)
  have "\<not> acceptable start c" using decision_acceptable [OF tab] Inl by simp
  then show ?thesis
    using assms HandleStartOp_reject [OF Inl] decision_reason [OF Inl] by auto
next
  case (Inr t)
  have tab: "table_inv c" using assms by (simp add: client_inv_def)
  obtain c1 where c1: "StartOp_commit t c = (None, c1)"
    "HandleStartOp start c = EnqueueWrite (Ack (meta_op_id start) True '''') c1"
    using HandleStartOp_accept [OF Inr] by auto
  note ch = StartOp_check_InrD [OF StartOp_decision_InrD(1) [OF Inr]]
  have "client_inv c1" by (rule client_inv_start [OF assms ch(3) ch(2) c1(1)])
  moreover have "acceptable start c" using decision_acceptable [OF tab] Inr by blast
  ultimately show ?thesis
    using c1(2) sched_of_commit [OF tab c1(1)] decision_kind [OF Inr] by simp
qed

theorem start_op_decides_witness:
  "client_inv (HandleStartOp demo_start demo_queued) \<and> \<not> acceptable demo_start demo_queued \<and>
   (\<exists>reason. reason \<noteq> '''' \<and> HandleStartOp demo_start demo_queued = EnqueueWrite (Ack 7 False reason) demo_queued)"
proof -
  have "\<not> acceptable demo_start demo_queued"
    by (simp add: acceptable_def demo_start_def sched_ops_def sched_of_def ptr_entry_def demo_queued_facts del: One_nat_def)
  with start_op_decides [OF client_inv_demo_queued, of demo_start] show ?thesis
    by (simp add: demo_start_def)
qed

text \<open>
  C12. Losing authorization: any event but \<open>ONLINE\<close> empties the queue and reports each queued
  operation once as \<open>UNAUTHORIZED\<close>, in queue order, asks a running task to cancel, and every later
  start request is refused.
\<close>

theorem auth_lost:
  assumes inv: "client_inv c" and ev: "event_state ev \<noteq> State_kOnline"
  shows "task_queue (OnAuthStateChanged ev c) = [] \<and>
         enqueued (OnAuthStateChanged ev c) = enqueued c @ map unauthorized (map (ptr_op c) (task_queue c)) \<and>
         (current_task c \<noteq> nullptr \<longrightarrow> cancel_requested (heap (OnAuthStateChanged ev c) (current_task c))) \<and>
         client_inv (OnAuthStateChanged ev c) \<and>
         (\<forall>start. \<exists>reason. HandleStartOp start (OnAuthStateChanged ev c) =
            EnqueueWrite (Ack (meta_op_id start) False reason) (OnAuthStateChanged ev c))"
proof -
  obtain d ops where d: "ApplyFeatureUpdate_locked RestrictedFeatures c = (d, ops)" by fastforce
  have c': "OnAuthStateChanged ev c = sends (map unauthorized ops) d"
    using ev by (simp add: OnAuthStateChanged_def ApplyFeatureUpdate_def event_toggles_def d)
  have none: "\<not> IsTaskAllowed RestrictedFeatures k" for k
    by (simp add: IsTaskAllowed_def RestrictedFeatures_def)
  note s = sched_of_ApplyFeatureUpdate_locked [OF inv d]
  have q: "task_queue d = []"
    using arg_cong [OF s(1), of waiting] by (simp add: sched_of_def sched_gate_def none case_prod_beta)
  have ops: "ops = map (ptr_op c) (task_queue c)"
    unfolding s(2) by (simp add: none case_prod_beta sched_of_def ptr_entry_def filter_True)
  have di: "client_inv d" by (rule client_inv_apply [OF inv d])
  have act: "active_features d = RestrictedFeatures"
    using d by (auto simp: ApplyFeatureUpdate_locked_def Let_def drop_queued_def drop_tabled_def split: if_splits)
  have cur: "current_task d = current_task c" using locked_current_apply [OF _ d] inv by (simp add: client_inv_def)
  have "cancel_requested (heap d (current_task c))" if "current_task c \<noteq> nullptr"
    using di that none by (auto simp: client_inv_def gate_inv_def ptr_allowed_def act cur)
  moreover have "\<exists>reason. HandleStartOp start (sends (map unauthorized ops) d) =
      EnqueueWrite (Ack (meta_op_id start) False reason) (sends (map unauthorized ops) d)" for start
  proof -
    have "\<not> acceptable start (sends (map unauthorized ops) d)"
      by (simp add: acceptable_def act none split: option.splits)
    then show ?thesis
      using HandleStartOp_unacceptable [of "sends (map unauthorized ops) d" start] di
      by (auto simp: client_inv_def)
  qed
  ultimately show ?thesis using q ops di s(3) unfolding c' by simp
qed

theorem auth_lost_witness:
  "client_inv demo_queued \<and>
   enqueued (OnAuthStateChanged (AuthStateChangedEvent State_kOffline) demo_queued) =
     [Error 7 ''UNAUTHORIZED'' ''operation disabled by authorization state'']"
  using auth_lost [OF client_inv_demo_queued, of "AuthStateChangedEvent State_kOffline"]
  by (simp add: client_inv_demo_queued demo_queued_facts unauthorized_def kAuthorizationErrorMessage_def del: One_nat_def)

lemma ApplyFeatureUpdate_features:
  "active_features (ApplyFeatureUpdate toggles c) = toggles"
  "requested_features (ApplyFeatureUpdate toggles c) = requested_features c"
  by (simp_all add: ApplyFeatureUpdate_def ApplyFeatureUpdate_locked_def Let_def drop_queued_def drop_tabled_def)

lemma client_inv_ApplyFeatureUpdate: "client_inv c \<Longrightarrow> client_inv (ApplyFeatureUpdate toggles c)"
  using client_inv_apply [of c toggles] by (auto simp: ApplyFeatureUpdate_def split: prod.splits)

text \<open>
  After any non-empty sequence of authorization events the features in force are decided by
  the last event alone: the configured features if it is \<open>ONLINE\<close>, nothing otherwise. No event
  changes the configured features, and the invariant is kept throughout.
\<close>

lemma last_event_decides:
  assumes "client_inv c"
  shows "active_features (OnAuthStateChanged ev (fold OnAuthStateChanged evs c)) =
           (if event_state ev = State_kOnline then requested_features c else RestrictedFeatures) \<and>
         client_inv (OnAuthStateChanged ev (fold OnAuthStateChanged evs c))"
proof -
  have "client_inv (fold OnAuthStateChanged evs c) \<and>
      requested_features (fold OnAuthStateChanged evs c) = requested_features c"
    using assms
    by (induction evs arbitrary: c)
       (auto simp: OnAuthStateChanged_def ApplyFeatureUpdate_features client_inv_ApplyFeatureUpdate)
  then show ?thesis
    by (auto simp: OnAuthStateChanged_def ApplyFeatureUpdate_features event_toggles_def
          client_inv_ApplyFeatureUpdate)
qed

lemma last_event_decides_example:
  "client_inv demo_queued \<and>
   active_features (OnAuthStateChanged (AuthStateChangedEvent State_kOnline)
     (fold OnAuthStateChanged [AuthStateChangedEvent State_kOffline] demo_queued)) = default_FeatureToggles"
  using last_event_decides [OF client_inv_demo_queued, of "AuthStateChangedEvent State_kOnline"
      "[AuthStateChangedEvent State_kOffline]"]
  by (simp add: client_inv_demo_queued demo_queued_facts)

text \<open>
  C13. Cancelling: a queued operation leaves the queue, the others keep their order, and it is
  reported cancelled once; a running one is asked to stop and nothing is sent; an unknown
  identifier changes nothing.
\<close>

theorem cancel_refines:
  assumes inv: "client_inv c"
  shows "sched_of (HandleCancel i c) = sched_cancel i (sched_of c) \<and> client_inv (HandleCancel i c) \<and>
    enqueued (HandleCancel i c) = enqueued c @
      (if i \<in> fst ` set (waiting (sched_of c)) then [Error i ''CANCELLED'' ''operation cancelled''] else []) \<and>
    (\<forall>k. running_op (sched_of c) = Some (i, k) \<longrightarrow> cancel_requested (heap (HandleCancel i c) (current_task c))) \<and>
    (i \<notin> sched_ops (sched_of c) \<longrightarrow> HandleCancel i c = c)"
proof -
  obtain d ops where d: "HandleCancel_locked i c = (d, ops)" by fastforce
  have tab: "table_inv c" using inv by (simp add: client_inv_def)
  note s = sched_of_HandleCancel_locked [OF tab d]
  have h: "HandleCancel i c = sends (map cancelled_error ops) d" by (simp add: HandleCancel_def d)
  have "cancel_requested (heap d (current_task c))" if "running_op (sched_of c) = Some (i, k)" for k
  proof -
    have cur: "current_task c \<noteq> nullptr" "ptr_op c (current_task c) = i"
      using that by (auto simp: sched_of_def ptr_entry_def split: if_splits)
    have "map_of (tasks c) i = Some (current_task c)"
      using table_current [OF tab cur(1)] cur(2) tab by (auto simp: table_inv_def intro: map_of_is_SomeI)
    with d cur(1) show ?thesis by (auto simp: HandleCancel_locked_def)
  qed
  moreover have "d = c \<and> ops = []" if "i \<notin> sched_ops (sched_of c)"
    using d that table_lookup [OF tab, of i] by (auto simp: HandleCancel_locked_def)
  ultimately show ?thesis
    using s client_inv_cancel [OF inv d] unfolding h by (auto simp: cancelled_error_def)
qed

theorem cancel_refines_witness:
  "client_inv demo_queued \<and> enqueued (HandleCancel 7 demo_queued) = [Error 7 ''CANCELLED'' ''operation cancelled''] \<and>
   HandleCancel 8 demo_queued = demo_queued"
  using cancel_refines [OF client_inv_demo_queued, of 7] cancel_refines [OF client_inv_demo_queued, of 8]
  by (simp add: client_inv_demo_queued demo_queued_facts sched_of_def ptr_entry_def sched_ops_def del: One_nat_def)

text \<open>
  C14. When the stream closes every queued operation is dropped and reported cancelled exactly
  once, every tracked task, running or not, is asked to cancel, and the running one stays tracked.
\<close>

theorem stream_closed_cancels:
  assumes inv: "client_inv c"
  shows "sched_of (HandleStreamClosed status c) = sched_clear (sched_of c) \<and>
    client_inv (HandleStreamClosed status c) \<and>
    (\<exists>ops. distinct ops \<and> set ops = fst ` set (waiting (sched_of c)) \<and>
       enqueued (HandleStreamClosed status c) =
         enqueued c @ map (\<lambda>i. Error i ''CANCELLED'' ''stream closed'') ops) \<and>
    (\<forall>(i, p) \<in> set (tasks c). cancel_requested (heap (HandleStreamClosed status c) p))"
proof -
  obtain d ops where d: "CancelAllLocked_table c = (d, ops)" by fastforce
  have tab: "table_inv c" using inv by (simp add: client_inv_def)
  have h: "HandleStreamClosed status c = sends (map (\<lambda>i. Error i ''CANCELLED'' ''stream closed'') ops) d"
    by (simp add: HandleStreamClosed_def CancelAllLocked_def d)
  have "\<forall>(i, p) \<in> set (tasks c). cancel_requested (heap d p)"
    using d table_entry [OF tab] by (force simp: CancelAllLocked_table_def Let_def)
  with sched_of_CancelAllLocked_table [OF tab d] client_inv_cancel_all [OF inv d] show ?thesis
    unfolding h by auto
qed

theorem stream_closed_cancels_witness:
  "client_inv demo_queued \<and>
   (\<exists>ops. distinct ops \<and> set ops = {7} \<and>
      enqueued (HandleStreamClosed Status_OK demo_queued) =
        map (\<lambda>i. Error i ''CANCELLED'' ''stream closed'') ops)"
  using stream_closed_cancels [OF client_inv_demo_queued, of Status_OK]
  by (simp add: client_inv_demo_queued demo_queued_facts sched_of_def ptr_entry_def del: One_nat_def)



section \<open>Draining\<close>

text \<open>What \<open>Task::Run\<close> leaves alone: everything but its messages and its own task object.\<close>

definition run_frame :: "(task_ptr \<Rightarrow> callback_client \<Rightarrow> callback_client) \<Rightarrow> bool" where
  "run_frame task_run \<longleftrightarrow> (\<forall>p c.
     task_queue (task_run p c) = task_queue c \<and> drain_mode (task_run p c) = drain_mode c \<and>
     c_running (task_run p c) = c_running c \<and> tasks (task_run p c) = tasks c \<and>
     (\<forall>q. op_id (heap (task_run p c) q) = op_id (heap c q)))"

text \<open>The state between tasks of a worker that runs one task after the other.\<close>

definition run_one :: "(task_ptr \<Rightarrow> callback_client \<Rightarrow> callback_client) \<Rightarrow> callback_client \<Rightarrow> callback_client" where
  "run_one task_run c = (let c1 = Worker_take c; p = current_task c1 in Worker_finish p (RunTask task_run p c1))"

lemma run_one_frame:
  assumes "run_frame task_run" and "task_queue c = p # q"
  shows "task_queue (run_one task_run c) = q" "drain_mode (run_one task_run c) = drain_mode c"
    "c_running (run_one task_run c) \<longleftrightarrow> c_running c \<and> \<not> (drain_mode c \<and> q = [])"
    "current_task (run_one task_run c) = nullptr"
    "tasks (run_one task_run c) = (if p = nullptr then tasks c else AList.delete (ptr_op c p) (tasks c))"
    "ptr_op (run_one task_run c) r = ptr_op c r"
  using assms
  by (auto simp: run_one_def run_frame_def Worker_take_def Worker_finish_def RunTask_def Let_def ptr_op_def)

lemma WorkerLoop_round:
  "c_running c \<Longrightarrow> task_queue c \<noteq> [] \<Longrightarrow>
   WorkerLoop (Suc n) task_run c = WorkerLoop n task_run (run_one task_run c)"
  by (simp add: run_one_def Let_def Worker_ready_def Worker_break_def)

lemma WorkerLoop_drain:
  assumes "run_frame task_run" and "c_running c" and "drain_mode c" and "task_queue c \<noteq> []"
  shows "WorkerLoop (Suc (length (task_queue c))) task_run c =
           Some ((run_one task_run ^^ length (task_queue c)) c)"
  using assms(2-4)
proof (induction "task_queue c" arbitrary: c)
  case (Cons p q)
  note f = run_one_frame [OF assms(1) Cons.hyps(2) [symmetric]]
  have "WorkerLoop (Suc (length q)) task_run (run_one task_run c) =
      Some ((run_one task_run ^^ length q) (run_one task_run c))"
  proof (cases "q = []")
    case True
    with f(3) Cons.prems show ?thesis by simp
  next
    case False
    with Cons.hyps(1) [of "run_one task_run c"] f Cons.prems show ?thesis by simp
  qed
  then show ?case
    unfolding WorkerLoop_round [OF Cons.prems(1,3)]
    by (simp add: funpow_swap1 del: WorkerLoop.simps flip: Cons.hyps(2))
qed simp

lemma run_all_frame:
  assumes "run_frame task_run" and "n \<le> length (task_queue c)" and "c_running c" and "drain_mode c"
  shows "task_queue ((run_one task_run ^^ n) c) = drop n (task_queue c) \<and>
         drain_mode ((run_one task_run ^^ n) c) \<and>
         (c_running ((run_one task_run ^^ n) c) \<longleftrightarrow> n = 0 \<or> n < length (task_queue c))"
  using assms(2)
proof (induction n)
  case (Suc n)
  let ?d = "(run_one task_run ^^ n) c"
  have d: "task_queue ?d = (task_queue c ! n) # drop (Suc n) (task_queue c)" "drain_mode ?d" "c_running ?d"
    using Suc by (auto simp: Cons_nth_drop_Suc)
  show ?case using run_one_frame(1-3) [OF assms(1) d(1)] d(2,3) Suc.prems by auto
qed (use assms in simp)




lemma demo_started:
  "client_inv (client (initial_agent demo_client))" "stream_inv (client (initial_agent demo_client))"
  using initial_agent_inv [OF demo_fresh] by (simp_all add: agent_inv_def)

lemma demo_started_facts:
  "c_running (client (initial_agent demo_client))" "\<not> stop_worker (client (initial_agent demo_client))"
  "task_queue (client (initial_agent demo_client)) = []" "enqueued (client (initial_agent demo_client)) = []"
  "pending_writes (client (initial_agent demo_client)) = []" "next_reactor (client (initial_agent demo_client)) = 0"
  "\<not> write_in_flight (client (initial_agent demo_client))" "agent_id (client (initial_agent demo_client)) = ''agent''"
  "reactor (client (initial_agent demo_client)) = None"
  by (simp_all add: initial_agent_def Run_begin_def demo_client_eq)


section \<open>The opening of a stream\<close>

lemma Run_connect_writes:
  assumes inv: "stream_inv c" and free: "\<not> write_in_flight c" and q: "pending_writes c @ [MakeHello (agent_id c)] = m # ms"
  shows "writes_on (next_reactor c) (io_log (Run_connect client_callbacks c)) = [m]"
    and "pending_writes (Run_connect client_callbacks c) = ms"
proof -
  have cb: "ready_callback client_callbacks = Some (\<lambda>c. EnqueueWrite (MakeHello (agent_id c)) c)"
    by (simp add: client_callbacks_def SetStreamClosedCallback_def SetMessageCallback_def SetReadyCallback_def)
  have "writes_on (next_reactor c) (io_log c) = []"
    using inv by (intro writes_on_fresh) (auto simp: stream_inv_def)
  then show "writes_on (next_reactor c) (io_log (Run_connect client_callbacks c)) = [m]"
    and "pending_writes (Run_connect client_callbacks c) = ms"
    using q free
    by (simp_all add: Run_connect_def Reactor_Start_def OnStreamReady_def cb EnqueueWrite_def
          MaybeStartWriteLocked_def log_io_def Let_def)
qed



text \<open>
  C34. A reconnect need not open with hello: when the stream closes while operations are queued, the
  errors reported for them are kept for the next stream and written there before hello.
\<close>

theorem hello_after_stale_errors:
  assumes inv: "stream_inv c" "client_inv c" and live: "live r c" "\<not> outstanding r (io_log c)"
    and q: "task_queue c \<noteq> []"
  shows "\<exists>i \<in> ptr_op c ` set (task_queue c).
     writes_on (next_reactor c) (io_log (Run_connect client_callbacks (Reactor_OnDone client_callbacks r status c))) =
       [Error i ''CANCELLED'' ''stream closed'']"
proof -
  let ?c1 = "(log_io (Done r) c)\<lparr>write_in_flight := False, current_write := None, pending_writes := [], reactor := None\<rparr>"
  let ?d = "Reactor_OnDone client_callbacks r status c"
  have cb: "stream_closed_callback client_callbacks = Some HandleStreamClosed"
    by (simp add: client_callbacks_def SetStreamClosedCallback_def)
  obtain e ops where e: "CancelAllLocked_table ?c1 = (e, ops)" by fastforce
  have tab: "table_inv ?c1" using inv(2) by (simp add: client_inv_def table_inv_def log_io_def)
  have ops: "set ops = ptr_op c ` set (task_queue c)"
    using sched_of_CancelAllLocked_table(3) [OF tab e]
    by (simp add: sched_of_def ptr_entry_def ptr_op_def image_image log_io_def)
  have e1: "reactor e = None" "\<not> write_in_flight e" "pending_writes e = []" "next_reactor e = next_reactor c"
    using locked_truncate(4) [OF e] by (simp_all add: stream_client.defs log_io_def)
  have offline: "reactor (sends ms x) = None \<and> \<not> write_in_flight (sends ms x) \<and>
      pending_writes (sends ms x) = pending_writes x @ ms \<and> next_reactor (sends ms x) = next_reactor x"
    if "reactor x = None" "\<not> write_in_flight x" for ms x
    using that unfolding sends_def
    by (induction ms arbitrary: x) (simp_all add: EnqueueWrite_def MaybeStartWriteLocked_def split: list.splits)
  have d: "?d = (sends (map (\<lambda>i. Error i ''CANCELLED'' ''stream closed'') ops) e)
      \<lparr>done_status := (done_status (sends (map (\<lambda>i. Error i ''CANCELLED'' ''stream closed'') ops) e))(r := Some status)\<rparr>"
    by (simp add: Reactor_OnDone_def OnStreamClosed_def cb HandleStreamClosed_def CancelAllLocked_def Let_def e)
  have p: "pending_writes ?d = map (\<lambda>i. Error i ''CANCELLED'' ''stream closed'') ops"
    "\<not> write_in_flight ?d" "next_reactor ?d = next_reactor c"
    using offline [OF e1(1,2)] e1 unfolding d by simp_all
  obtain i rest where i: "ops = i # rest" using ops q by (cases ops) auto
  have "stream_inv ?d" using inv live stream_inv_live by (blast intro: client_stream.inv_OnDone)
  from Run_connect_writes(1) [OF this p(2), of "Error i ''CANCELLED'' ''stream closed''"] p(1,3) i ops
  show ?thesis by auto
qed

definition demo_online :: callback_client where
  "demo_online = Reactor_OnWriteDone 0 True (Run_connect client_callbacks (client (initial_agent demo_client)))"

definition demo_online_queued :: callback_client where
  "demo_online_queued = snd (StartOp_commit demo_task demo_online)"

lemma client_callbacks_sel:
  "ready_callback client_callbacks = Some (\<lambda>c. EnqueueWrite (MakeHello (agent_id c)) c)"
  "message_callback client_callbacks = Some HandleStreamMessage"
  "stream_closed_callback client_callbacks = Some HandleStreamClosed"
  by (simp_all add: client_callbacks_def SetStreamClosedCallback_def SetMessageCallback_def SetReadyCallback_def)

lemmas demo_online_simps = demo_online_def OnWriteFinished_def Reactor_OnWriteDone_def Run_connect_def
  Reactor_Start_def OnStreamReady_def client_callbacks_sel EnqueueWrite_def MaybeStartWriteLocked_def log_io_def
  initial_agent_def Run_begin_def demo_client_eq Let_def

lemma demo_online_eq:
  "demo_online = \<lparr>s_running = True, attempt = 0, pending_writes = [], current_write = None,
     write_in_flight = False, reactor = Some 0, next_reactor = 1, done_status = (\<lambda>_. None),
     io_log = [Connect 0, StartCall 0, StartWrite 0 (MakeHello ''agent''), StartRead 0, WriteDone 0 True],
     enqueued = [MakeHello ''agent''], slept = [], agent_id = ''agent'', log_options = default_LogOptions,
     env_run = True, c_running = True, heap = (\<lambda>_. make_ExecTask 0 \<lparr>cmd = '''', ex_max_output_bytes = 0\<rparr>),
     next_ptr = 1, task_queue = [], tasks = [], current_task = nullptr, drain_mode = False, stop_worker = False,
     requested_features = default_FeatureToggles, active_features = default_FeatureToggles\<rparr>"
  by (simp add: demo_online_simps)

lemma demo_online_queued_eq:
  "demo_online_queued = demo_online\<lparr>heap := (heap demo_online)(1 := demo_task), next_ptr := 2, tasks := [(7, 1)],
     task_queue := [1]\<rparr>"
  by (simp add: demo_online_queued_def demo_online_eq StartOp_commit_def Let_def IsTaskAllowed_def demo_task_def
        make_ExecTask_def new_Task_def default_FeatureToggles_def)

lemma demo_online_inv:
  "stream_inv demo_online" "stream_inv demo_online_queued" "client_inv demo_online_queued"
proof -
  let ?c = "client (initial_agent demo_client)"
  have "stream_inv (Run_connect client_callbacks ?c)"
    using demo_started(2) by (rule client_stream.inv_Run_connect) (simp add: demo_started_facts)
  moreover have "outstanding 0 (io_log (Run_connect client_callbacks ?c))"
    by (simp add: demo_online_simps outstanding_def outstanding_step_def)
  ultimately show o: "stream_inv demo_online" unfolding demo_online_def by (rule stream_inv_OnWriteDone)
  have "stream_client.truncate demo_online_queued = stream_client.truncate demo_online"
    by (simp add: demo_online_queued_eq)
  from stream_inv_truncate [OF this] o show "stream_inv demo_online_queued" by simp
  show "client_inv demo_online_queued"
    by (simp add: demo_online_queued_eq demo_online_eq client_inv_def table_inv_def gate_inv_def ptr_allowed_def
          demo_task_def make_ExecTask_def new_Task_def IsTaskAllowed_def default_FeatureToggles_def)
qed

theorem hello_after_stale_errors_witness:
  "writes_on 1 (io_log (Run_connect client_callbacks (Reactor_OnDone client_callbacks 0 Status_OK demo_online_queued))) =
     [Error 7 ''CANCELLED'' ''stream closed'']"
proof -
  have "live 0 demo_online_queued" "\<not> outstanding 0 (io_log demo_online_queued)"
    by (simp_all add: live_def demo_online_queued_eq demo_online_eq outstanding_def outstanding_step_def)
  from hello_after_stale_errors [OF demo_online_inv(2,3) this, of Status_OK] show ?thesis
    by (simp add: demo_online_queued_eq demo_online_eq ptr_op_def demo_task_def make_ExecTask_def new_Task_def)
qed

end
