(* ===== verification/Log_Parse.thy ===== *)
theory Log_Parse
  imports Ops_Proto
begin

text \<open>
  Log lines and the filters on them (first half of \<open>source/zurg/log_ops.cpp\<close>): the parser for
  lines \<open>[date time.fraction] [logger] [level] message\<close>, and the time, level and substring filters.
\<close>

section \<open>Calendar time\<close>

definition leap_year :: "int \<Rightarrow> bool" where
  "leap_year y \<longleftrightarrow> y mod 4 = 0 \<and> y mod 100 \<noteq> 0 \<or> y mod 400 = 0"

definition days_before_year :: "int \<Rightarrow> int" where
  "days_before_year y = 365 * (y - 1970) + ((y - 1) div 4 - (y - 1) div 100 + (y - 1) div 400) - 477"

definition days_before_month :: "int \<Rightarrow> int \<Rightarrow> int" where
  "days_before_month y m =
     [0, 31, 59, 90, 120, 151, 181, 212, 243, 273, 304, 334] ! nat m + (if leap_year y \<and> m \<ge> 2 then 1 else 0)"

text \<open>\<open>timegm\<close> on a broken-down time, with the C library's normalisation of months out of range.\<close>

definition timegm :: "int \<Rightarrow> int \<Rightarrow> int \<Rightarrow> int \<Rightarrow> int \<Rightarrow> int \<Rightarrow> int" where
  "timegm tm_year tm_mon tm_mday tm_hour tm_min tm_sec =
     (let y = 1900 + tm_year + tm_mon div 12; m = tm_mon mod 12;
          days = days_before_year y + days_before_month y m + (tm_mday - 1)
      in ((days * 24 + tm_hour) * 60 + tm_min) * 60 + tm_sec)"

section \<open>Parsing\<close>

record ParsedLine =
  p_ts :: Timestamp
  level_lower :: string
  p_message :: string

definition ToLower :: "string \<Rightarrow> string" where
  "ToLower s = map tolower s"

text \<open>The lambda \<open>read_int\<close>.\<close>

definition read_int :: "string \<Rightarrow> nat \<Rightarrow> nat \<Rightarrow> int option" where
  "read_int s pos len =
     (if pos + len > length s then None
      else if \<forall>c \<in> set (take len (drop pos s)). is_digit c
           then Some (int (from_digits (take len (drop pos s)))) else None)"

fun frac_nanos :: "int \<Rightarrow> string \<Rightarrow> int" where
  "frac_nanos factor [] = 0"
| "frac_nanos factor (c # s) =
     (if is_digit c then int (char_digit c) * factor + frac_nanos (factor div 10) s else 0)"

definition parse_nanos :: "string \<Rightarrow> int" where
  "parse_nanos time_part =
     (if length time_part > 19 \<and> time_part ! 19 = CHR ''.''
      then frac_nanos 100000000 (take (min 9 (length time_part - 20)) (drop 20 time_part)) else 0)"

definition parse_time :: "string \<Rightarrow> Timestamp option" where
  "parse_time time_part =
     (case (read_int time_part 0 4, read_int time_part 5 2, read_int time_part 8 2,
            read_int time_part 11 2, read_int time_part 14 2, read_int time_part 17 2) of
        (Some year, Some month, Some day, Some hour, Some minute, Some sec) \<Rightarrow>
          (let secs = timegm (year - 1900) (month - 1) day hour minute sec
           in if secs = -1 then None else Some \<lparr>seconds = secs, nanos = parse_nanos time_part\<rparr>)
      | _ \<Rightarrow> None)"

definition ParseSpdlogLine :: "string \<Rightarrow> ParsedLine option" where
  "ParseSpdlogLine line =
     (if length line < 22 \<or> hd line \<noteq> CHR ''['' then None
      else case find_char line (CHR '']'') 0 of
        None \<Rightarrow> None
      | Some close_time \<Rightarrow>
          (if close_time < 20 then None
           else
             (let time_part = take (close_time - 1) (drop 1 line)
              in if length time_part < 19 then None
                 else case parse_time time_part of
                   None \<Rightarrow> None
                 | Some ts \<Rightarrow>
                   (case find_char line (CHR ''['') (close_time + 1) of
                      None \<Rightarrow> None
                    | Some level_open \<Rightarrow>
                   (case find_char line (CHR '']'') (level_open + 1) of
                      None \<Rightarrow> None
                    | Some level_close \<Rightarrow>
                   (case find_char line (CHR ''['') (level_close + 1) of
                      None \<Rightarrow> None
                    | Some second_bracket \<Rightarrow>
                   (case find_char line (CHR '']'') (second_bracket + 1) of
                      None \<Rightarrow> None
                    | Some second_close \<Rightarrow>
                        Some \<lparr>p_ts = ts,
                          level_lower = ToLower (take (second_close - second_bracket - 1) (drop (second_bracket + 1) line)),
                          p_message = (if second_close + 2 \<le> length line then drop (second_close + 2) line else [])\<rparr>)))))))"

section \<open>Filters\<close>

text \<open>\<open>TimeRange\<close>: a bound that is not set is \<open>None\<close>.\<close>

record TimeRange =
  range_start :: "Timestamp option"
  range_end :: "Timestamp option"

definition TimestampLess :: "Timestamp \<Rightarrow> Timestamp \<Rightarrow> bool" where
  "TimestampLess lhs rhs =
     (if seconds lhs < seconds rhs then True
      else if seconds lhs > seconds rhs then False
      else nanos lhs < nanos rhs)"

definition InRange :: "ParsedLine \<Rightarrow> TimeRange \<Rightarrow> bool" where
  "InRange line rg =
     (if (case range_start rg of None \<Rightarrow> False | Some s \<Rightarrow> TimestampLess (p_ts line) s) then False
      else if (case range_end rg of None \<Rightarrow> False | Some e \<Rightarrow> TimestampLess e (p_ts line)) then False
      else True)"

definition InLevelFilter :: "ParsedLine \<Rightarrow> string list \<Rightarrow> bool" where
  "InLevelFilter line levels = (if levels = [] then True else level_lower line \<in> set levels)"

definition ContainsFilter :: "string \<Rightarrow> string \<Rightarrow> bool" where
  "ContainsFilter haystack needle = (if needle = [] then True else contains haystack needle)"

section \<open>Printing and the round trip\<close>

definition pad2 :: "nat \<Rightarrow> string" where
  "pad2 n = [digit_char (n div 10), digit_char (n mod 10)]"

definition pad3 :: "nat \<Rightarrow> string" where
  "pad3 n = digit_char (n div 100) # pad2 (n mod 100)"

definition pad4 :: "nat \<Rightarrow> string" where
  "pad4 n = pad2 (n div 100) @ pad2 (n mod 100)"

text \<open>A line in the layout the agent's loggers write.\<close>

definition time_text :: "nat \<Rightarrow> nat \<Rightarrow> nat \<Rightarrow> nat \<Rightarrow> nat \<Rightarrow> nat \<Rightarrow> nat \<Rightarrow> string" where
  "time_text y mo d h mi s ms =
     pad4 y @ ''-'' @ pad2 mo @ ''-'' @ pad2 d @ '' '' @ pad2 h @ '':'' @ pad2 mi @ '':'' @ pad2 s @ ''.'' @ pad3 ms"

definition log_line :: "string \<Rightarrow> string \<Rightarrow> string \<Rightarrow> string \<Rightarrow> string" where
  "log_line time logger level msg = ''['' @ time @ ''] ['' @ logger @ ''] ['' @ level @ ''] '' @ msg"

lemma pad2_digits: "n < 100 \<Longrightarrow> (\<forall>c \<in> set (pad2 n). is_digit c) \<and> from_digits (pad2 n) = n \<and> length (pad2 n) = 2"
  by (simp add: pad2_def from_digits_def)

lemma pad4_digits: "n < 10000 \<Longrightarrow> (\<forall>c \<in> set (pad4 n). is_digit c) \<and> from_digits (pad4 n) = n \<and> length (pad4 n) = 4"
  by (simp add: pad4_def pad2_def from_digits_def)

lemma read_int_at:
  assumes "s = pre @ d @ post" "length pre = pos" "length d = len" "\<forall>c \<in> set d. is_digit c"
  shows "read_int s pos len = Some (int (from_digits d))"
  using assms by (auto simp: read_int_def)

lemma parse_time_ints:
  assumes "y < 10000" "mo < 100" "d < 100" "h < 100" "mi < 100" "s < 100" "ms < 1000"
  shows "parse_time (time_text y mo d h mi s ms) =
     (let secs = timegm (int y - 1900) (int mo - 1) (int d) (int h) (int mi) (int s)
      in if secs = -1 then None else Some \<lparr>seconds = secs, nanos = int ms * 1000000\<rparr>)"
proof -
  let ?t = "time_text y mo d h mi s ms"
  note p2 = pad2_digits pad4_digits
  have "read_int ?t 0 4 = Some (int y)"
    using assms p2 read_int_at [of ?t "[]" "pad4 y"] by (simp add: time_text_def)
  moreover have "read_int ?t 5 2 = Some (int mo)"
    using assms p2 read_int_at [of ?t "pad4 y @ ''-''" "pad2 mo"] by (simp add: time_text_def)
  moreover have "read_int ?t 8 2 = Some (int d)"
    using assms p2 read_int_at [of ?t "pad4 y @ ''-'' @ pad2 mo @ ''-''" "pad2 d"] by (simp add: time_text_def)
  moreover have "read_int ?t 11 2 = Some (int h)"
    using assms p2 read_int_at [of ?t "pad4 y @ ''-'' @ pad2 mo @ ''-'' @ pad2 d @ '' ''" "pad2 h"] by (simp add: time_text_def)
  moreover have "read_int ?t 14 2 = Some (int mi)"
    using assms p2 read_int_at [of ?t "pad4 y @ ''-'' @ pad2 mo @ ''-'' @ pad2 d @ '' '' @ pad2 h @ '':''" "pad2 mi"]
    by (simp add: time_text_def)
  moreover have "read_int ?t 17 2 = Some (int s)"
    using assms p2
      read_int_at [of ?t "pad4 y @ ''-'' @ pad2 mo @ ''-'' @ pad2 d @ '' '' @ pad2 h @ '':'' @ pad2 mi @ '':''" "pad2 s"]
    by (simp add: time_text_def)
  moreover have "parse_nanos ?t = int ms * 1000000"
  proof -
    have l: "length (pad4 y) = 4" "\<And>n. length (pad2 n) = 2" by (simp_all add: pad4_def pad2_def)
    have tl: "?t = (pad4 y @ ''-'' @ pad2 mo @ ''-'' @ pad2 d @ '' '' @ pad2 h @ '':'' @ pad2 mi @ '':'' @ pad2 s) @ ''.'' @ pad3 ms"
      by (simp add: time_text_def)
    have "length ?t = 23" by (simp add: time_text_def l pad3_def pad2_def)
    moreover have "?t ! 19 = CHR ''.''" unfolding tl by (simp add: nth_append l)
    moreover have "drop 20 ?t = pad3 ms" unfolding tl by (simp add: l)
    moreover have "int ms = int (ms div 100) * 100 + int (ms mod 100 div 10) * 10 + int (ms mod 100 mod 10)"
      using div_mult_mod_eq [of ms 100] div_mult_mod_eq [of "ms mod 100" 10] by linarith
    ultimately show ?thesis using assms(7)
      by (simp add: parse_nanos_def pad3_def pad2_def)
  qed
  ultimately show ?thesis by (simp add: parse_time_def Let_def)
qed

lemma digit_not_bracket: "d < 10 \<Longrightarrow> digit_char d \<noteq> CHR '']''"
proof
  assume "d < 10" "digit_char d = CHR '']''"
  then have "48 + d = (of_char (CHR '']'') :: nat)" by (metis of_char_digit_char)
  with \<open>d < 10\<close> show False by simp
qed

lemma time_text_shape:
  assumes "y < 10000" "mo < 100" "d < 100" "h < 100" "mi < 100" "s < 100" "ms < 1000"
  shows "length (time_text y mo d h mi s ms) = 23" and "CHR '']'' \<notin> set (time_text y mo d h mi s ms)"
  using assms digit_not_bracket [symmetric]
  by (auto simp: time_text_def pad4_def pad3_def pad2_def)

lemma drop_length_append: "drop (length xs) (xs @ ys) = ys"
  by simp

lemma ParseSpdlogLine_log_line:
  assumes t: "19 \<le> length time" "CHR '']'' \<notin> set time" and p: "parse_time time = Some ts"
    and l: "CHR '']'' \<notin> set logger" and v: "CHR '']'' \<notin> set level"
  shows "ParseSpdlogLine (log_line time logger level msg) =
     Some \<lparr>p_ts = ts, level_lower = ToLower level, p_message = msg\<rparr>"
proof -
  let ?line = "log_line time logger level msg"
  let ?a = "''['' @ time" and ?b = "''['' @ time @ ''] ['' @ logger"
  let ?c = "''['' @ time @ ''] ['' @ logger @ ''] [''"
  have len: "22 \<le> length ?line" using t by (simp add: log_line_def)
  have f1: "find_char ?line (CHR '']'') 0 = Some (Suc (length time))"
    using find_char_at [of "CHR '']''" ?a 0 "[]" "'' ['' @ logger @ ''] ['' @ level @ ''] '' @ msg"] t
    by (simp add: log_line_def)
  have f2: "find_char ?line (CHR ''['') (length time + 2) = Some (length time + 3)"
    using find_char_at [of "CHR ''[''" "'' ''" "length time + 2" "?a @ '']''" "logger @ ''] ['' @ level @ ''] '' @ msg"]
    by (simp add: log_line_def)
  have f3: "find_char ?line (CHR '']'') (length time + 4) = Some (length time + 4 + length logger)"
    using find_char_at [of "CHR '']''" logger "length time + 4" "?a @ ''] [''" "'' ['' @ level @ ''] '' @ msg"] l
    by (simp add: log_line_def)
  have f4: "find_char ?line (CHR ''['') (length time + 5 + length logger) = Some (length time + 6 + length logger)"
    using find_char_at [of "CHR ''[''" "'' ''" "length time + 5 + length logger" "?b @ '']''" "level @ ''] '' @ msg"]
    by (simp add: log_line_def)
  have f5: "find_char ?line (CHR '']'') (length time + 7 + length logger) = Some (length time + 7 + length logger + length level)"
    using find_char_at [of "CHR '']''" level "length time + 7 + length logger" ?c "'' '' @ msg"] v
    by (simp add: log_line_def)
  have tp: "take (length time) (drop 1 ?line) = time" by (simp add: log_line_def)
  have line: "?line = ?c @ level @ ''] '' @ msg" by (simp add: log_line_def)
  have lc: "length ?c = length time + 7 + length logger" by simp
  have dc: "drop (length ?c) (?c @ level @ ''] '' @ msg) = level @ ''] '' @ msg" by (rule drop_length_append)
  have lv: "take (length level) (drop (length time + 7 + length logger) ?line) = level"
    unfolding line lc [symmetric] dc by simp
  have "?line = (?c @ level @ ''] '') @ msg" by (simp add: log_line_def)
  moreover have "length (?c @ level @ ''] '') = length time + 9 + length logger + length level" by simp
  ultimately have ms: "drop (length time + 9 + length logger + length level) ?line = msg"
    by (metis drop_length_append)
  have ml: "length time + 9 + length logger + length level \<le> length ?line" by (simp add: log_line_def)
  have hd: "hd ?line = CHR ''[''" by (simp add: log_line_def)
  show ?thesis
    using len hd t p f1 f2 f3 f4 f5 tp lv ms ml
    by (simp add: ParseSpdlogLine_def Let_def numeral_eq_Suc)
qed

lemma ParseSpdlogLine_bad_time:
  assumes "19 \<le> length time" "CHR '']'' \<notin> set time" "parse_time time = None"
  shows "ParseSpdlogLine (log_line time logger level msg) = None"
proof -
  have "find_char (log_line time logger level msg) (CHR '']'') 0 = Some (Suc (length time))"
    using find_char_at [of "CHR '']''" "''['' @ time" 0 "[]" "'' ['' @ logger @ ''] ['' @ level @ ''] '' @ msg"] assms
    by (simp add: log_line_def)
  moreover have "take (length time) (drop 1 (log_line time logger level msg)) = time" by (simp add: log_line_def)
  ultimately show ?thesis using assms by (simp add: ParseSpdlogLine_def Let_def)
qed

text \<open>
  C17. Parsing inverts printing: a line printed in the agent's layout with a four-digit year and
  two-digit fields parses to exactly its time, to the millisecond, its level in lower case and its
  message, as long as logger and level names have no closing bracket. The one instant that is lost
  is the second before the epoch, whose value is the error result of \<open>timegm\<close>.
\<close>

theorem parse_printed_line:
  assumes "y < 10000" "mo < 100" "d < 100" "h < 100" "mi < 100" "s < 100" "ms < 1000"
    and "CHR '']'' \<notin> set logger" and "CHR '']'' \<notin> set level"
  shows "ParseSpdlogLine (log_line (time_text y mo d h mi s ms) logger level msg) =
    (if timegm (int y - 1900) (int mo - 1) (int d) (int h) (int mi) (int s) = -1 then None
     else Some \<lparr>p_ts = \<lparr>seconds = timegm (int y - 1900) (int mo - 1) (int d) (int h) (int mi) (int s),
                        nanos = int ms * 1000000\<rparr>,
                level_lower = ToLower level, p_message = msg\<rparr>)"
proof -
  note sh = time_text_shape [OF assms(1-7)]
  show ?thesis
  proof (cases "timegm (int y - 1900) (int mo - 1) (int d) (int h) (int mi) (int s) = -1")
    case True
    then have "parse_time (time_text y mo d h mi s ms) = None"
      using parse_time_ints [OF assms(1-7)] by simp
    then have "ParseSpdlogLine (log_line (time_text y mo d h mi s ms) logger level msg) = None"
      using ParseSpdlogLine_bad_time sh by simp
    with True show ?thesis by simp
  next
    case False
    then show ?thesis
      using parse_time_ints [OF assms(1-7)] ParseSpdlogLine_log_line sh assms(8,9) by simp
  qed
qed

theorem parse_printed_line_witness:
  "ParseSpdlogLine (log_line (time_text 2025 9 27 11 0 0 250) ''agent.test'' ''INFO'' ''keep me'') =
     Some \<lparr>p_ts = \<lparr>seconds = 1758970800, nanos = 250000000\<rparr>, level_lower = ''info'', p_message = ''keep me''\<rparr>"
proof -
  have "timegm 125 8 27 11 0 0 = 1758970800"
    by (simp add: timegm_def days_before_year_def days_before_month_def leap_year_def)
  moreover have "ToLower ''INFO'' = ''info''" by code_simp
  ultimately show ?thesis
    using parse_printed_line [of 2025 9 27 11 0 0 250 "''agent.test''" "''INFO''" "''keep me''"] by simp
qed

lemma TimestampLess_order:
  "\<not> TimestampLess a a" "TimestampLess a b \<Longrightarrow> TimestampLess b c \<Longrightarrow> TimestampLess a c"
  "TimestampLess a b \<or> TimestampLess b a \<or> seconds a = seconds b \<and> nanos a = nanos b"
  by (auto simp: TimestampLess_def split: if_splits)

lemma ToLower_idem [simp]: "ToLower (ToLower s) = ToLower s"
  by (simp add: ToLower_def)

end
