(* ===== verification/Zurg_Fs.thy ===== *)
theory Zurg_Fs
  imports Zurg_Prelude "HOL-Library.Sublist"
begin

text \<open>
  The part of \<open>std::filesystem\<close> and of file streams the agent uses, over an explicit file system
  with directories, files and symbolic links. A \<open>path\<close> is its native string, as in the library;
  a location is the list of names from the root. Name lookup follows symbolic links, at most 40 of
  them as on Linux. \<open>weakly_canonical\<close>, \<open>relative\<close> and \<open>lexically_normal\<close> follow libstdc++.
\<close>

section \<open>File system state\<close>

datatype fs_node = Dir | File string | Symlink string

datatype fs_errno = ENOENT | ENOTDIR | ELOOP | EACCES

fun errno_message :: "fs_errno \<Rightarrow> string" where
  "errno_message ENOENT = ''No such file or directory''"
| "errno_message ENOTDIR = ''Not a directory''"
| "errno_message ELOOP = ''Too many levels of symbolic links''"
| "errno_message EACCES = ''Permission denied''"

type_synonym location = "string list"

text \<open>
  \<open>may_read\<close> and \<open>may_create\<close> are the permissions of the process, \<open>tmp_path\<close> what
  \<open>temp_directory_path\<close> finds in the environment.
\<close>

record fs =
  nodes :: "location \<Rightarrow> fs_node option"
  cwd :: location
  may_read :: "location \<Rightarrow> bool"
  may_create :: "location \<Rightarrow> bool"
  tmp_path :: "fs_errno + string"

section \<open>Paths as strings\<close>

definition slash :: char where
  "slash = CHR ''/''"

definition is_absolute :: "string \<Rightarrow> bool" where
  "is_absolute s \<longleftrightarrow> s \<noteq> [] \<and> hd s = slash"

fun fields :: "string \<Rightarrow> string \<Rightarrow> string list" where
  "fields acc [] = [rev acc]"
| "fields acc (c # s) = (if c = slash then rev acc # fields [] s else fields (c # acc) s)"

definition names :: "string \<Rightarrow> string list" where
  "names s = filter (\<lambda>f. f \<noteq> []) (fields [] s)"

definition trailing_slash :: "string \<Rightarrow> bool" where
  "trailing_slash s \<longleftrightarrow> s \<noteq> [] \<and> last s = slash"

text \<open>The elements a path iterates over.\<close>

definition elems :: "string \<Rightarrow> string list" where
  "elems s = (if is_absolute s then [''/''] else []) @ names s @
     (if trailing_slash s \<and> names s \<noteq> [] then [''''] else [])"

definition path_append :: "string \<Rightarrow> string \<Rightarrow> string" where
  "path_append p q =
     (if is_absolute q then q
      else if p \<noteq> [] \<and> last p \<noteq> slash then p @ [slash] @ q
      else p @ q)"

definition filename :: "string \<Rightarrow> string" where
  "filename s = last (fields [] s)"

text \<open>The path without its filename and the separators before it; a root directory stays.\<close>

definition parent_path :: "string \<Rightarrow> string" where
  "parent_path s =
     (let p = take (length s - length (filename s)) s;
          q = rev (dropWhile (\<lambda>c. c = slash) (rev p))
      in if q = [] \<and> is_absolute s then [slash] else q)"

text \<open>Where the extension of a filename starts: its last dot, unless that is the first character.\<close>

definition extension_pos :: "string \<Rightarrow> nat option" where
  "extension_pos f =
     (if f = ''.'' \<or> f = ''..'' then None
      else (let after = takeWhile (\<lambda>c. c \<noteq> CHR ''.'') (rev f);
                k = length f - length after
            in if k = 0 \<or> k = 1 then None else Some (k - 1)))"

definition extension :: "string \<Rightarrow> string" where
  "extension s = (case extension_pos (filename s) of None \<Rightarrow> [] | Some k \<Rightarrow> drop k (filename s))"

definition stem :: "string \<Rightarrow> string" where
  "stem s = (case extension_pos (filename s) of None \<Rightarrow> filename s | Some k \<Rightarrow> take k (filename s))"

fun join_names :: "string list \<Rightarrow> string" where
  "join_names [] = []"
| "join_names [c] = c"
| "join_names (c # cs) = c @ [slash] @ join_names cs"

definition to_path :: "location \<Rightarrow> string" where
  "to_path cs = slash # join_names cs"

text \<open>\<open>lexically_normal\<close>: dots dropped, dot-dots cancelled; the flag is whether a separator must follow.\<close>

fun norm_elems :: "bool \<Rightarrow> string list \<Rightarrow> bool \<Rightarrow> string list \<Rightarrow> string list \<times> bool" where
  "norm_elems ab acc tr [] = (rev acc, tr)"
| "norm_elems ab acc tr (e # es) =
     (if e = ''/'' then norm_elems ab acc tr es
      else if e = ''.'' \<or> e = [] then norm_elems ab acc True es
      else if e = ''..'' then
        (case acc of
           [] \<Rightarrow> if ab then norm_elems ab [] False es else norm_elems ab [''..''] False es
         | a # as \<Rightarrow> if a = ''..'' then norm_elems ab (''..'' # acc) False es else norm_elems ab as True es)
      else norm_elems ab (e # acc) False es)"

definition lexically_normal :: "string \<Rightarrow> string" where
  "lexically_normal s =
     (if s = [] then []
      else
        (let (cs, tr) = norm_elems (is_absolute s) [] False (elems s);
             r = (if is_absolute s then [slash] else []) @ join_names cs @
                 (if tr \<and> cs \<noteq> [] \<and> last cs \<noteq> ''..'' then [slash] else [])
         in if r = [] then ''.'' else r))"

fun strip_common :: "string list \<Rightarrow> string list \<Rightarrow> string list \<times> string list" where
  "strip_common (a # as) (b # bs) = (if a = b then strip_common as bs else (a # as, b # bs))"
| "strip_common as bs = (as, bs)"

fun updirs :: "string list \<Rightarrow> int" where
  "updirs [] = 0"
| "updirs (b # bs) = updirs bs + (if b = ''..'' then - 1 else if b = [] \<or> b = ''.'' then 0 else 1)"

text \<open>The elements of \<open>p.lexically_relative(base)\<close>; no elements is the empty path.\<close>

definition lexically_relative :: "string \<Rightarrow> string \<Rightarrow> string list" where
  "lexically_relative p base =
     (if is_absolute p \<noteq> is_absolute base then []
      else
        (let (a, b) = strip_common (elems p) (elems base); n = updirs b
         in if a = [] \<and> b = [] then [''.'']
            else if n = 0 \<and> (a = [] \<or> hd a = []) then [''.'']
            else if n \<ge> 0 then replicate (nat n) ''..'' @ a
            else []))"

section \<open>Name lookup\<close>

text \<open>\<open>Missing\<close> is a name that is not there in an existing directory: where a file could be created.\<close>

datatype walk_result = Found location | Missing location | Fail fs_errno

definition steps :: "string \<Rightarrow> string list" where
  "steps s = names s @ (if trailing_slash s then [''.''] else [])"

function walk :: "fs \<Rightarrow> nat \<Rightarrow> location \<Rightarrow> string list \<Rightarrow> walk_result" where
  "walk F n cur [] = Found cur"
| "walk F n cur (c # t) =
     (if c = ''.'' then walk F n cur t
      else if c = ''..'' then walk F n (butlast cur) t
      else (case nodes F (cur @ [c]) of
          None \<Rightarrow> if t = [] then Missing (cur @ [c]) else Fail ENOENT
        | Some Dir \<Rightarrow> walk F n (cur @ [c]) t
        | Some (File d) \<Rightarrow> if t = [] then Found (cur @ [c]) else Fail ENOTDIR
        | Some (Symlink s) \<Rightarrow>
            (case n of
               0 \<Rightarrow> Fail ELOOP
             | Suc m \<Rightarrow>
                 if s = [] then Fail ENOENT
                 else walk F m (if is_absolute s then [] else cur) (steps s @ t))))"
  by pat_completeness auto
termination
  by (relation "measures [\<lambda>(F, n, cur, t). n, \<lambda>(F, n, cur, t). length t]") auto

definition file_status :: "fs \<Rightarrow> string \<Rightarrow> walk_result" where
  "file_status F s =
     (if s = [] then Fail ENOENT else walk F 40 (if is_absolute s then [] else cwd F) (steps s))"

text \<open>\<open>exists\<close>; an error other than not found is \<open>Inl\<close>, thrown or reported by the two overloads.\<close>

definition fs_exists :: "fs \<Rightarrow> string \<Rightarrow> fs_errno + bool" where
  "fs_exists F s =
     (case file_status F s of
        Found cs \<Rightarrow> Inr True
      | Missing cs \<Rightarrow> Inr False
      | Fail e \<Rightarrow> if e = ENOENT \<or> e = ENOTDIR then Inr False else Inl e)"

definition canonical_path :: "fs \<Rightarrow> string \<Rightarrow> fs_errno + string" where
  "canonical_path F s =
     (case file_status F s of Found cs \<Rightarrow> Inr (to_path cs) | Missing cs \<Rightarrow> Inl ENOENT | Fail e \<Rightarrow> Inl e)"

text \<open>The longest run of leading elements that exists, and the elements after it.\<close>

fun existing_prefix :: "fs \<Rightarrow> string \<Rightarrow> string list \<Rightarrow> fs_errno + string \<times> string list" where
  "existing_prefix F r [] = Inr (r, [])"
| "existing_prefix F r (e # es) =
     (case fs_exists F (path_append r e) of
        Inl err \<Rightarrow> Inl err
      | Inr True \<Rightarrow> existing_prefix F (path_append r e) es
      | Inr False \<Rightarrow> Inr (r, e # es))"

definition weakly_canonical :: "fs \<Rightarrow> string \<Rightarrow> fs_errno + string" where
  "weakly_canonical F s =
     (case fs_exists F s of
        Inl err \<Rightarrow> Inl err
      | Inr True \<Rightarrow> canonical_path F s
      | Inr False \<Rightarrow>
          (case existing_prefix F [] (elems s) of
             Inl err \<Rightarrow> Inl err
           | Inr (r, rest) \<Rightarrow>
               (case if r = [] then Inr [] else canonical_path F r of
                  Inl err \<Rightarrow> Inl err
                | Inr r' \<Rightarrow> Inr (lexically_normal (foldl path_append r' rest)))))"

definition fs_relative :: "fs \<Rightarrow> string \<Rightarrow> string \<Rightarrow> fs_errno + string list" where
  "fs_relative F p base =
     (case weakly_canonical F p of
        Inl err \<Rightarrow> Inl err
      | Inr p' \<Rightarrow>
          (case weakly_canonical F base of
             Inl err \<Rightarrow> Inl err
           | Inr b' \<Rightarrow> Inr (lexically_relative p' b')))"

section \<open>Changing the file system\<close>

text \<open>\<open>create_directories\<close>: every missing name on the way becomes a directory.\<close>

function make_dirs :: "fs \<Rightarrow> nat \<Rightarrow> location \<Rightarrow> string list \<Rightarrow> fs_errno option \<times> fs" where
  "make_dirs F n cur [] = (None, F)"
| "make_dirs F n cur (c # t) =
     (if c = ''.'' then make_dirs F n cur t
      else if c = ''..'' then make_dirs F n (butlast cur) t
      else (case nodes F (cur @ [c]) of
          None \<Rightarrow>
            (if may_create F (cur @ [c])
             then make_dirs (F\<lparr>nodes := (nodes F)(cur @ [c] \<mapsto> Dir)\<rparr>) n (cur @ [c]) t
             else (Some EACCES, F))
        | Some Dir \<Rightarrow> make_dirs F n (cur @ [c]) t
        | Some (File d) \<Rightarrow> (Some ENOTDIR, F)
        | Some (Symlink s) \<Rightarrow>
            (case n of
               0 \<Rightarrow> (Some ELOOP, F)
             | Suc m \<Rightarrow>
                 if s = [] then (Some ENOENT, F)
                 else make_dirs F m (if is_absolute s then [] else cur) (steps s @ t))))"
  by pat_completeness auto
termination
  by (relation "measures [\<lambda>(F, n, cur, t). n, \<lambda>(F, n, cur, t). length t]") auto

definition create_directories :: "fs \<Rightarrow> string \<Rightarrow> fs_errno option \<times> fs" where
  "create_directories F s =
     (if s = [] then (Some ENOENT, F) else make_dirs F 40 (if is_absolute s then [] else cwd F) (steps s))"

text \<open>Opening an output stream creates or truncates the file; \<open>None\<close> when the stream is not good.\<close>

definition open_out :: "fs \<Rightarrow> string \<Rightarrow> (location \<times> fs) option" where
  "open_out F s =
     (case file_status F s of
        Missing cs \<Rightarrow> if may_create F cs then Some (cs, F\<lparr>nodes := (nodes F)(cs \<mapsto> File [])\<rparr>) else None
      | Found cs \<Rightarrow>
          (case nodes F cs of
             Some (File d) \<Rightarrow> if may_create F cs then Some (cs, F\<lparr>nodes := (nodes F)(cs \<mapsto> File [])\<rparr>) else None
           | _ \<Rightarrow> None)
      | Fail e \<Rightarrow> None)"

definition append_data :: "location \<Rightarrow> string \<Rightarrow> fs \<Rightarrow> fs" where
  "append_data cs d F =
     (case nodes F cs of
        Some (File d0) \<Rightarrow> F\<lparr>nodes := (nodes F)(cs \<mapsto> File (d0 @ d))\<rparr>
      | _ \<Rightarrow> F)"

text \<open>What an input stream delivers; \<open>None\<close> when it cannot be opened. A directory opens but reads nothing.\<close>

definition open_in :: "fs \<Rightarrow> string \<Rightarrow> string option" where
  "open_in F s =
     (case file_status F s of
        Found cs \<Rightarrow>
          (if \<not> may_read F cs then None
           else case nodes F cs of Some (File d) \<Rightarrow> Some d | _ \<Rightarrow> Some [])
      | _ \<Rightarrow> None)"

text \<open>
  \<open>remove\<close> with an error code that the callers ignore: it does not follow a final link. The callers
  pass the file they created, so a directory is left alone.
\<close>

definition fs_remove :: "fs \<Rightarrow> string \<Rightarrow> fs" where
  "fs_remove F s =
     (case names s of
        [] \<Rightarrow> F
      | _ \<Rightarrow>
          (case walk F 40 (if is_absolute s then [] else cwd F) (butlast (names s)) of
             Found cs \<Rightarrow>
               (if nodes F (cs @ [last (names s)]) = Some Dir then F
                else F\<lparr>nodes := (nodes F)(cs @ [last (names s)] := None)\<rparr>)
           | _ \<Rightarrow> F))"

fun lines_of :: "string \<Rightarrow> string \<Rightarrow> string list" where
  "lines_of acc [] = (if acc = [] then [] else [rev acc])"
| "lines_of acc (c # s) = (if c = CHR 0x0A then rev acc # lines_of [] s else lines_of (c # acc) s)"

text \<open>The lines \<open>std::getline\<close> reads from a stream.\<close>

definition getlines :: "string \<Rightarrow> string list" where
  "getlines d = lines_of [] d"

section \<open>Locations and their paths\<close>

definition clean_name :: "string \<Rightarrow> bool" where
  "clean_name c \<longleftrightarrow> c \<noteq> [] \<and> slash \<notin> set c"

lemma fields_no_slash: "slash \<notin> set acc \<Longrightarrow> f \<in> set (fields acc s) \<Longrightarrow> slash \<notin> set f"
  by (induction acc s rule: fields.induct) (auto split: if_splits)

lemma names_clean: "c \<in> set (names s) \<Longrightarrow> clean_name c"
  using fields_no_slash [of "[]"] by (auto simp: names_def clean_name_def)

lemma fields_app: "slash \<notin> set c \<Longrightarrow> fields acc (c @ s) = fields (rev c @ acc) s"
  by (induction c arbitrary: acc) auto

lemma fields_join: "\<forall>c \<in> set cs. clean_name c \<Longrightarrow> fields [] (join_names cs) = (if cs = [] then [''''] else cs)"
  by (induction cs rule: join_names.induct)
     (auto simp: clean_name_def fields_app fields_app [of _ _ "[]", simplified])

lemma names_to_path [simp]: "\<forall>c \<in> set cs. clean_name c \<Longrightarrow> names (to_path cs) = cs"
  by (auto simp: names_def to_path_def fields_join filter_empty_conv clean_name_def intro!: filter_True)

lemma last_join: "cs \<noteq> [] \<Longrightarrow> \<forall>c \<in> set cs. clean_name c \<Longrightarrow> join_names cs \<noteq> [] \<and> last (join_names cs) = last (last cs)"
  by (induction cs rule: join_names.induct) (auto simp: clean_name_def)

lemma trailing_to_path: "\<forall>c \<in> set cs. clean_name c \<Longrightarrow> trailing_slash (to_path cs) \<longleftrightarrow> cs = []"
proof (cases "cs = []")
  case False
  assume cl: "\<forall>c \<in> set cs. clean_name c"
  have "clean_name (last cs)" using cl last_in_set [OF False] by blast
  then have "last (last cs) \<noteq> slash" by (metis clean_name_def last_in_set)
  with last_join [OF False cl] False show ?thesis by (auto simp: trailing_slash_def to_path_def)
qed (simp add: trailing_slash_def to_path_def)

lemma is_absolute_to_path [simp]: "is_absolute (to_path cs)"
  by (simp add: is_absolute_def to_path_def)

lemma elems_to_path [simp]: "\<forall>c \<in> set cs. clean_name c \<Longrightarrow> elems (to_path cs) = ''/'' # cs"
  by (cases "cs = []") (auto simp: elems_def trailing_to_path slash_def)

lemma steps_clean: "c \<in> set (steps s) \<Longrightarrow> clean_name c"
  using names_clean by (auto simp: steps_def clean_name_def slash_def split: if_splits)

text \<open>
  A real location: reached through directories only, by proper names. Name lookup ends in real
  locations, and a real location is found under its own path.
\<close>

definition proper_name :: "string \<Rightarrow> bool" where
  "proper_name c \<longleftrightarrow> clean_name c \<and> c \<noteq> ''.'' \<and> c \<noteq> ''..''"

definition real_dir :: "fs \<Rightarrow> location \<Rightarrow> bool" where
  "real_dir F cs \<longleftrightarrow> (\<forall>c \<in> set cs. proper_name c) \<and> (\<forall>ds. prefix ds cs \<and> ds \<noteq> [] \<longrightarrow> nodes F ds = Some Dir)"

definition real_loc :: "fs \<Rightarrow> location \<Rightarrow> bool" where
  "real_loc F cs \<longleftrightarrow> (\<forall>c \<in> set cs. proper_name c) \<and>
     (cs \<noteq> [] \<longrightarrow> real_dir F (butlast cs) \<and> (nodes F cs = Some Dir \<or> (\<exists>d. nodes F cs = Some (File d))))"

lemma real_dir_Nil [simp]: "real_dir F []"
  by (simp add: real_dir_def)

lemma real_dir_snoc: "real_dir F (cs @ [c]) \<longleftrightarrow> real_dir F cs \<and> proper_name c \<and> nodes F (cs @ [c]) = Some Dir"
  unfolding real_dir_def by (auto simp: prefix_snoc)

lemma real_dir_butlast: "real_dir F cs \<Longrightarrow> real_dir F (butlast cs)"
  by (cases cs rule: rev_cases) (auto simp: real_dir_snoc)

lemma real_dir_loc: "real_dir F cs \<Longrightarrow> real_loc F cs"
  by (cases cs rule: rev_cases) (auto simp: real_loc_def real_dir_snoc real_dir_def)

text \<open>Induction along a name lookup in a fixed file system, one case per thing that can be met.\<close>

lemma walk_rule [case_names nil dot up absent dir plain link_limit link_empty link]:
  fixes F :: fs
  assumes nil: "\<And>n cur. P n cur []"
    and dot: "\<And>n cur t. P n cur t \<Longrightarrow> P n cur (''.'' # t)"
    and up: "\<And>n cur t. P n (butlast cur) t \<Longrightarrow> P n cur (''..'' # t)"
    and absent: "\<And>n cur c t. c \<noteq> ''.'' \<Longrightarrow> c \<noteq> ''..'' \<Longrightarrow> nodes F (cur @ [c]) = None \<Longrightarrow> P n cur (c # t)"
    and dir: "\<And>n cur c t. c \<noteq> ''.'' \<Longrightarrow> c \<noteq> ''..'' \<Longrightarrow> nodes F (cur @ [c]) = Some Dir \<Longrightarrow>
       P n (cur @ [c]) t \<Longrightarrow> P n cur (c # t)"
    and plain: "\<And>n cur c t d. c \<noteq> ''.'' \<Longrightarrow> c \<noteq> ''..'' \<Longrightarrow> nodes F (cur @ [c]) = Some (File d) \<Longrightarrow> P n cur (c # t)"
    and link_limit: "\<And>cur c t s. c \<noteq> ''.'' \<Longrightarrow> c \<noteq> ''..'' \<Longrightarrow> nodes F (cur @ [c]) = Some (Symlink s) \<Longrightarrow> P 0 cur (c # t)"
    and link_empty: "\<And>m cur c t. c \<noteq> ''.'' \<Longrightarrow> c \<noteq> ''..'' \<Longrightarrow> nodes F (cur @ [c]) = Some (Symlink []) \<Longrightarrow> P (Suc m) cur (c # t)"
    and link: "\<And>m cur c t s. c \<noteq> ''.'' \<Longrightarrow> c \<noteq> ''..'' \<Longrightarrow> nodes F (cur @ [c]) = Some (Symlink s) \<Longrightarrow> s \<noteq> [] \<Longrightarrow>
       P m (if is_absolute s then [] else cur) (steps s @ t) \<Longrightarrow> P (Suc m) cur (c # t)"
  shows "P n cur t"
proof (induction F \<equiv> F n cur t rule: walk.induct)
  case (1 n cur)
  show ?case by (rule nil)
next
  case (2 n cur c t)
  show ?case
  proof (cases "c = ''.'' \<or> c = ''..''")
    case True
    with 2 dot up show ?thesis by blast
  next
    case c: False
    show ?thesis
    proof (cases "nodes F (cur @ [c])")
      case None
      with c absent show ?thesis by simp
    next
      case (Some nd)
      show ?thesis
      proof (cases nd)
        case Dir
        with Some c 2 dir show ?thesis by simp
      next
        case (File d)
        with Some c plain show ?thesis by simp
      next
        case (Symlink s)
        with Some c 2 link_limit link_empty link show ?thesis
          by (cases n; cases "s = []") auto
      qed
    qed
  qed
qed

lemma walk_Found:
  "walk F n cur t = Found cs \<Longrightarrow> real_dir F cur \<Longrightarrow> \<forall>c \<in> set t. clean_name c \<Longrightarrow> real_loc F cs"
proof (induction n cur t rule: walk_rule [where F = F])
  case (nil n cur)
  then show ?case by (simp add: real_dir_loc)
next
  case (plain n cur c t d)
  then show ?case by (auto simp: real_loc_def real_dir_def proper_name_def split: if_splits)
next
  case (link m cur c t s)
  then show ?case using steps_clean by (simp add: ball_Un split: if_splits)
qed (auto simp: real_dir_butlast real_dir_snoc proper_name_def split: if_splits)

lemma file_status_real: "real_dir F (cwd F) \<Longrightarrow> file_status F s = Found cs \<Longrightarrow> real_loc F cs"
  using walk_Found [of F 40 _ "steps s" cs] steps_clean by (auto simp: file_status_def split: if_splits)

lemma walk_dirs: "real_dir F (cur @ t) \<Longrightarrow> walk F n cur (t @ u) = walk F n (cur @ t) u"
proof (induction t arbitrary: cur)
  case (Cons c t)
  have d: "real_dir F ((cur @ [c]) @ t)" using Cons.prems by simp
  then have "nodes F (cur @ [c]) = Some Dir" "proper_name c"
    unfolding real_dir_def by (auto simp del: append_assoc)
  with Cons.IH [OF d] show ?case by (simp add: proper_name_def)
qed simp

lemma walk_real: "real_loc F cs \<Longrightarrow> walk F n [] cs = Found cs"
proof (cases cs rule: rev_cases)
  case (snoc ds c)
  assume r: "real_loc F cs"
  then have d: "real_dir F ([] @ ds)" and c: "proper_name c" "nodes F (ds @ [c]) = Some Dir \<or> (\<exists>x. nodes F (ds @ [c]) = Some (File x))"
    by (auto simp: real_loc_def snoc)
  from walk_dirs [OF d, of n "[c]"] c show ?thesis by (auto simp: snoc proper_name_def)
qed simp

lemma real_loc_names: "real_loc F cs \<Longrightarrow> \<forall>c \<in> set cs. clean_name c"
  by (auto simp: real_loc_def proper_name_def)

lemma file_status_to_path: "real_loc F cs \<Longrightarrow> file_status F (to_path cs) = Found cs"
  using walk_real [of F cs 40] real_loc_names [of F cs] trailing_to_path [of cs]
  by (cases "cs = []") (auto simp: file_status_def steps_def to_path_def [symmetric] simp del: walk.simps, simp_all add: to_path_def)

lemma weakly_canonical_existing:
  assumes "file_status F s = Found cs"
  shows "weakly_canonical F s = Inr (to_path cs)"
  using assms by (simp add: weakly_canonical_def fs_exists_def canonical_path_def)

lemma strip_common_prefix: "strip_common xs ys = (a, b) \<Longrightarrow> \<exists>p. xs = p @ a \<and> ys = p @ b"
  by (induction xs ys rule: strip_common.induct) (auto split: if_splits intro: exI [of _ "_ # _"])

lemma updirs_names: "\<forall>b \<in> set bs. proper_name b \<Longrightarrow> updirs bs = int (length bs)"
  by (induction bs) (auto simp: proper_name_def clean_name_def)

text \<open>The test the agent makes: no dot-dot on the way from the base means the base is a prefix.\<close>

lemma relative_inside:
  assumes cs: "\<forall>c \<in> set cs. proper_name c" and bs: "\<forall>c \<in> set bs. proper_name c"
    and rel: "''..'' \<notin> set (lexically_relative (to_path cs) (to_path bs))"
  shows "prefix bs cs"
proof -
  have cl: "\<forall>c \<in> set cs. clean_name c" "\<forall>c \<in> set bs. clean_name c" using cs bs by (auto simp: proper_name_def)
  obtain a b where ab: "strip_common cs bs = (a, b)" by fastforce
  then obtain p where p: "cs = p @ a" "bs = p @ b" using strip_common_prefix by blast
  have "b = []"
  proof (rule ccontr)
    assume b: "b \<noteq> []"
    have "updirs b = int (length b)" using updirs_names bs p(2) by simp
    with b have "''..'' \<in> set (lexically_relative (to_path cs) (to_path bs))"
      using cl ab by (auto simp: lexically_relative_def)
    with rel show False by simp
  qed
  with p show ?thesis by auto
qed

section \<open>What name lookup does not depend on\<close>

text \<open>File contents do not matter to name lookup.\<close>

fun node_shape :: "fs_node option \<Rightarrow> fs_node option" where
  "node_shape (Some (File d)) = Some (File [])"
| "node_shape nd = nd"

definition same_shape :: "fs \<Rightarrow> fs \<Rightarrow> bool" where
  "same_shape F G \<longleftrightarrow> cwd G = cwd F \<and> may_read G = may_read F \<and> (\<forall>l. node_shape (nodes G l) = node_shape (nodes F l))"

lemma same_shape_refl [simp]: "same_shape F F"
  by (simp add: same_shape_def)

lemma same_shape_trans: "same_shape F G \<Longrightarrow> same_shape G H \<Longrightarrow> same_shape F H"
  by (simp add: same_shape_def)

lemma shape_eq:
  "node_shape x = node_shape None \<longleftrightarrow> x = None" "node_shape x = node_shape (Some Dir) \<longleftrightarrow> x = Some Dir"
  "node_shape x = node_shape (Some (Symlink s)) \<longleftrightarrow> x = Some (Symlink s)"
  "node_shape x = node_shape (Some (File d)) \<longleftrightarrow> (\<exists>e. x = Some (File e))"
  by (cases x rule: node_shape.cases; auto)+

lemma same_shapeD:
  assumes "same_shape F G"
  shows "nodes F l = None \<Longrightarrow> nodes G l = None" "nodes F l = Some Dir \<Longrightarrow> nodes G l = Some Dir"
    "nodes F l = Some (Symlink s) \<Longrightarrow> nodes G l = Some (Symlink s)"
    "nodes F l = Some (File d) \<Longrightarrow> \<exists>e. nodes G l = Some (File e)"
  using assms shape_eq [of "nodes G l"] by (metis same_shape_def)+

lemma walk_shape: "same_shape F G \<Longrightarrow> walk G n cur t = walk F n cur t"
proof (induction n cur t rule: walk_rule [where F = F])
  case (plain n cur c t d)
  then show ?case using same_shapeD(4) [OF plain.prems plain.hyps(3)] by auto
qed (simp_all add: same_shapeD(1-3))

lemma file_status_shape: "same_shape F G \<Longrightarrow> file_status G s = file_status F s"
  by (simp add: file_status_def walk_shape) (simp add: same_shape_def)

lemma fs_exists_shape: "same_shape F G \<Longrightarrow> fs_exists G s = fs_exists F s"
  by (simp add: fs_exists_def file_status_shape)

lemma canonical_path_shape: "same_shape F G \<Longrightarrow> canonical_path G s = canonical_path F s"
  by (simp add: canonical_path_def file_status_shape)

lemma existing_prefix_shape: "same_shape F G \<Longrightarrow> existing_prefix G r es = existing_prefix F r es"
  by (induction es arbitrary: r) (auto simp: fs_exists_shape split: sum.splits bool.splits)

lemma weakly_canonical_shape:
  assumes "same_shape F G"
  shows "weakly_canonical G s = weakly_canonical F s"
proof -
  have eqs: "fs_exists G = fs_exists F" "canonical_path G = canonical_path F" "existing_prefix G = existing_prefix F"
    using assms by (simp_all add: fun_eq_iff fs_exists_shape canonical_path_shape existing_prefix_shape)
  show ?thesis unfolding weakly_canonical_def eqs by (rule refl)
qed

lemma fs_relative_shape: "same_shape F G \<Longrightarrow> fs_relative G p b = fs_relative F p b"
  unfolding fs_relative_def by (subst (1 2) weakly_canonical_shape) simp_all

lemma append_data_shape: "same_shape F (append_data l d F)"
  by (auto simp: append_data_def same_shape_def split: option.splits fs_node.splits)

lemma append_data_nodes:
  "nodes F l = Some (File d0) \<Longrightarrow> nodes (append_data l d F) = (nodes F)(l \<mapsto> File (d0 @ d))"
  by (simp add: append_data_def)

lemma open_in_other:
  assumes "same_shape F G" and "\<And>l. l \<noteq> out \<Longrightarrow> nodes G l = nodes F l" and "file_status F s \<noteq> Found out"
  shows "open_in G s = open_in F s"
proof (cases "file_status F s")
  case (Found cs)
  with assms show ?thesis by (simp add: open_in_def file_status_shape) (simp add: same_shape_def)
qed (use assms(1) in \<open>simp_all add: open_in_def file_status_shape\<close>)

section \<open>Creating and removing a file\<close>

text \<open>A path that leads to a missing name leads to the file once it has been created.\<close>


lemma walk_Missing_None: "walk F n cur t = Missing loc \<Longrightarrow> nodes F loc = None"
  by (induction n cur t rule: walk_rule [where F = F]) (auto split: if_splits)

lemma walk_created:
  assumes G: "nodes G = (nodes F)(loc \<mapsto> File d)"
  shows "walk F n cur t = Missing loc \<Longrightarrow> walk G n cur t = Found loc"
proof (induction n cur t rule: walk_rule [where F = F])
  case (dir n cur c t)
  with walk_Missing_None [of F n "cur @ [c]" t loc] have "cur @ [c] \<noteq> loc" by auto
  with dir show ?case by (simp add: G)
next
  case (link m cur c t s)
  with walk_Missing_None [of F m _ "steps s @ t" loc] have "cur @ [c] \<noteq> loc" by auto
  with link show ?case by (simp add: G)
qed (auto simp: G split: if_splits)

lemma open_out_then_read:
  assumes "open_out F s = Some (loc, F1)" and "fs_exists F s = Inr False"
  shows "file_status F s = Missing loc" and "nodes F1 = (nodes F)(loc \<mapsto> File [])"
    and "F1 = F\<lparr>nodes := (nodes F)(loc \<mapsto> File [])\<rparr>" and "file_status F1 s = Found loc" and "nodes F loc = None"
proof -
  show ms: "file_status F s = Missing loc"
    using assms by (auto simp: open_out_def fs_exists_def split: walk_result.splits if_splits)
  show F1: "F1 = F\<lparr>nodes := (nodes F)(loc \<mapsto> File [])\<rparr>" and n: "nodes F1 = (nodes F)(loc \<mapsto> File [])"
    using assms(1) ms by (auto simp: open_out_def split: if_splits)
  show "nodes F loc = None" using ms walk_Missing_None by (auto simp: file_status_def split: if_splits)
  from ms walk_created [OF n] show "file_status F1 s = Found loc"
    by (auto simp: file_status_def F1 split: if_splits)
qed

text \<open>If no link has the last name of a path, its parent is found and the missing name is there.\<close>

lemma walk_parent:
  assumes "c \<noteq> ''.''" "c \<noteq> ''..''" and nolink: "\<And>l s. nodes F (l @ [c]) \<noteq> Some (Symlink s)"
  shows "walk F n cur (t @ [c]) = Missing loc \<Longrightarrow> \<exists>ds. walk F n cur t = Found ds \<and> loc = ds @ [c]"
proof (induction n cur t rule: walk_rule [where F = F])
  case (nil n cur)
  with assms show ?case by (auto split: option.splits fs_node.splits)
qed auto

lemma walk_Found_extend:
  assumes "nodes F loc = None" and G: "nodes G = (nodes F)(loc \<mapsto> x)"
  shows "walk F n cur t = Found ds \<Longrightarrow> walk G n cur t = Found ds"
  using assms(1) by (induction n cur t rule: walk_rule [where F = F]) (auto simp: G split: if_splits)

lemma fields_not_Nil: "fields acc s \<noteq> []"
  by (induction acc s rule: fields.induct) auto

lemma last_fields:
  "s \<noteq> [] \<Longrightarrow> last s \<noteq> slash \<Longrightarrow> last (fields acc s) \<noteq> [] \<and> last (last (fields acc s)) = last s"
proof (induction acc s rule: fields.induct)
  case (2 acc c s)
  then show ?case by (cases s) (auto simp: fields_not_Nil)
qed simp

lemma last_names:
  assumes "s \<noteq> []" "last s \<noteq> slash"
  shows "names s \<noteq> []" and "last (last (names s)) = last s"
proof -
  have ne: "fields [] s \<noteq> []" by (rule fields_not_Nil)
  note l = last_fields [OF assms, of "[]"]
  have eq: "fields [] s = butlast (fields [] s) @ [last (fields [] s)]" using ne by simp
  have "names s = filter (\<lambda>f. f \<noteq> []) (butlast (fields [] s)) @ [last (fields [] s)]"
    unfolding names_def by (subst eq) (use l in simp)
  with l show "names s \<noteq> []" and "last (last (names s)) = last s" by simp_all
qed

text \<open>
  A file created under a path that ends in an ordinary name is removed under that path, and removing
  it again changes nothing: the file system is back to what it was.
\<close>

definition plain_path :: "fs \<Rightarrow> string \<Rightarrow> bool" where
  "plain_path F s \<longleftrightarrow> s \<noteq> [] \<and> last s \<noteq> slash \<and> last s \<noteq> CHR ''.'' \<and>
     (\<forall>l t. nodes F (l @ [last (names s)]) \<noteq> Some (Symlink t))"

lemma plain_path_parent:
  assumes "plain_path F s" and "file_status F s = Missing loc"
  shows "\<exists>ds. walk F 40 (if is_absolute s then [] else cwd F) (butlast (names s)) = Found ds \<and> loc = ds @ [last (names s)]"
proof -
  have s: "s \<noteq> []" "last s \<noteq> slash" "last s \<noteq> CHR ''.''" using assms(1) by (auto simp: plain_path_def)
  note n = last_names [OF s(1,2)]
  have "last (names s) \<noteq> ''.''" "last (names s) \<noteq> ''..''" using n(2) s(3) by auto
  moreover have "walk F 40 (if is_absolute s then [] else cwd F) (butlast (names s) @ [last (names s)]) = Missing loc"
    using assms(2) s n(1) by (simp add: file_status_def steps_def trailing_slash_def)
  moreover have "nodes F (l @ [last (names s)]) \<noteq> Some (Symlink t)" for l t
    using assms(1) by (simp add: plain_path_def)
  ultimately show ?thesis using walk_parent by blast
qed

lemma fs_remove_created:
  assumes "plain_path F s" and ms: "file_status F s = Missing loc" and cwd: "cwd G = cwd F"
    and G: "nodes G = (nodes F)(loc := x)" and x: "x = None \<or> x = Some (File d)"
  shows "nodes (fs_remove G s) = nodes F" and "cwd (fs_remove G s) = cwd F"
proof -
  obtain ds where ds: "walk F 40 (if is_absolute s then [] else cwd F) (butlast (names s)) = Found ds"
      "loc = ds @ [last (names s)]"
    using plain_path_parent [OF assms(1) ms] by blast
  have none: "nodes F loc = None" using ms walk_Missing_None by (auto simp: file_status_def split: if_splits)
  have ne: "names s \<noteq> []" using assms(1) last_names(1) by (auto simp: plain_path_def)
  have w: "walk G 40 (if is_absolute s then [] else cwd G) (butlast (names s)) = Found ds"
  proof (cases x)
    case None
    then have "nodes G = nodes F" using G none by (simp add: fun_upd_idem)
    then have "walk G n cur t = walk F n cur t" for n cur t
      by (induction n cur t rule: walk_rule [where F = F]) simp_all
    then show ?thesis using ds(1) unfolding cwd by metis
  next
    case (Some y)
    then show ?thesis using walk_Found_extend [OF none, of G y] G ds(1) unfolding cwd by blast
  qed
  have undo: "(nodes F)(loc := x, loc := None) = nodes F" using none by auto
  have nd: "nodes G loc \<noteq> Some Dir" using G x by auto
  have "fs_remove G s = G\<lparr>nodes := (nodes G)(loc := None)\<rparr>"
    unfolding fs_remove_def using ne w nd ds(2) by (cases "names s") auto
  then show "nodes (fs_remove G s) = nodes F" "cwd (fs_remove G s) = cwd F"
    using G undo cwd by simp_all
qed

end
