(* ===== verification/Temp_File.thy ===== *)
theory Temp_File
  imports Zurg_Fs Ops_Proto
begin

text \<open>
  Temporary files (\<open>source/zurg/temp_file.cpp\<close>): a directory that is made to exist, a path in it
  that does not exist yet, and reading a file back in chunks. The random numbers are a stream of
  64-bit draws, consumed from a position on.
\<close>

section \<open>Names\<close>

definition hex_digit :: "nat \<Rightarrow> char" where
  "hex_digit n = ''0123456789abcdef'' ! (n mod 16)"

text \<open>\<open>"%016llx"\<close>.\<close>

definition hex16 :: "u64 \<Rightarrow> string" where
  "hex16 v = map (\<lambda>i. hex_digit (unat v div 16 ^ (15 - i))) [0..<16]"

definition GenerateSuffix :: "(nat \<Rightarrow> u64) \<Rightarrow> nat \<Rightarrow> string" where
  "GenerateSuffix draws k = hex16 (draws k)"

text \<open>\<open>filesystem_error\<close> with the error code of the failure.\<close>

definition ResolveDirectory :: "fs \<Rightarrow> string \<Rightarrow> (fs_errno + string) \<times> fs" where
  "ResolveDirectory F preferred_dir =
     (case (if preferred_dir = '''' then tmp_path F else Inr preferred_dir) of
        Inl e \<Rightarrow> (Inl e, F)
      | Inr dir \<Rightarrow>
          (case create_directories F dir of
             (Some e, F1) \<Rightarrow> (Inl e, F1)
           | (None, F1) \<Rightarrow> (Inr dir, F1)))"

text \<open>What \<open>filesystem_error::what\<close> says of a failed \<open>status\<close>.\<close>

definition status_what :: "fs_errno \<Rightarrow> string \<Rightarrow> string" where
  "status_what e p = ''filesystem error: status: '' @ errno_message e @ '' ['' @ p @ '']''"

definition candidate_path :: "string \<Rightarrow> string \<Rightarrow> string \<Rightarrow> u64 \<Rightarrow> string" where
  "candidate_path directory pre suf v = path_append directory (pre @ hex16 v @ suf)"

fun unique_loop :: "fs \<Rightarrow> (nat \<Rightarrow> u64) \<Rightarrow> nat \<Rightarrow> nat \<Rightarrow> string \<Rightarrow> string \<Rightarrow> string \<Rightarrow> string + string" where
  "unique_loop F draws k 0 directory pre suf = Inl ''failed to generate unique temp file path''"
| "unique_loop F draws k (Suc n) directory pre suf =
     (let candidate = path_append directory (pre @ GenerateSuffix draws k @ suf)
      in case fs_exists F candidate of
           Inl e \<Rightarrow> Inl (status_what e candidate)
         | Inr False \<Rightarrow> Inr candidate
         | Inr True \<Rightarrow> unique_loop F draws (Suc k) n directory pre suf)"

text \<open>The path, or what the exception says.\<close>

definition CreateUniquePath :: "fs \<Rightarrow> (nat \<Rightarrow> u64) \<Rightarrow> string \<Rightarrow> string \<Rightarrow> string \<Rightarrow> string + string" where
  "CreateUniquePath F draws directory pre suf = unique_loop F draws 0 1000 directory pre suf"

section \<open>Reading a file in chunks\<close>

text \<open>
  The loop of \<open>StreamFile\<close>: \<open>stop k\<close> is what \<open>should_stop\<close> answers when asked for the \<open>k\<close>-th time
  (\<open>None\<close>: no function given), \<open>on_chunk\<close> acts on the caller's state. A short read sets the end of
  file flag and ends the loop.
\<close>

function stream_loop ::
  "nat \<Rightarrow> (nat \<Rightarrow> bool) option \<Rightarrow> nat \<Rightarrow> int \<Rightarrow> string \<Rightarrow> (int \<Rightarrow> string \<Rightarrow> 's \<Rightarrow> Status \<times> 's) \<Rightarrow> 's \<Rightarrow> Status \<times> 's" where
  "stream_loop n stop k off content on_chunk s =
     (if (case stop of None \<Rightarrow> False | Some f \<Rightarrow> f k) then (Status CANCELLED ''operation cancelled'', s)
      else
        (let got = take n content
         in if got = [] then (Status_OK, s)
            else
              (case on_chunk off got s of
                 (st, s1) \<Rightarrow>
                   if \<not> status_ok st then (st, s1)
                   else if length got < n then (Status_OK, s1)
                   else stream_loop n stop (Suc k) (off + int (length got)) (drop n content) on_chunk s1)))"
  by pat_completeness auto
termination
  by (relation "measure (\<lambda>(n, stop, k, off, content, on_chunk, s). length content)") auto

declare stream_loop.simps [simp del]

definition StreamFile ::
  "fs \<Rightarrow> string \<Rightarrow> nat \<Rightarrow> (nat \<Rightarrow> bool) option \<Rightarrow> (int \<Rightarrow> string \<Rightarrow> 's \<Rightarrow> Status \<times> 's) \<Rightarrow> 's \<Rightarrow> Status \<times> 's" where
  "StreamFile F path chunk_sz stop on_chunk s =
     (case open_in F path of
        None \<Rightarrow> (Status INTERNAL ''failed to reopen temp file'', s)
      | Some content \<Rightarrow>
          stream_loop (if chunk_sz = 0 then 64 * 1024 else chunk_sz) stop 0 0 content on_chunk s)"

section \<open>Properties\<close>

lemma hex_digit_inj: "hex_digit a = hex_digit b \<Longrightarrow> a mod 16 = b mod 16"
proof -
  have "distinct ''0123456789abcdef''" by simp
  moreover assume "hex_digit a = hex_digit b"
  ultimately show ?thesis
    using nth_eq_iff_index_eq [of "''0123456789abcdef''" "a mod 16" "b mod 16"] by (simp add: hex_digit_def)
qed

lemma base16_eq: "(\<And>j. j < m \<Longrightarrow> (a div 16 ^ j) mod 16 = (b div 16 ^ j) mod 16) \<Longrightarrow> a mod 16 ^ m = b mod (16 ^ m :: nat)"
proof (induction m)
  case (Suc m)
  have "x mod 16 ^ Suc m = 16 ^ m * (x div 16 ^ m mod 16) + x mod 16 ^ m" for x :: nat
    by (metis mod_mult2_eq power_Suc2)
  with Suc show ?case by (metis less_Suc_eq)
qed simp

lemma hex16_0: "hex16 0 = ''0000000000000000''"
  by (simp add: hex16_def hex_digit_def upt_conv_Cons)

text \<open>Different draws give different names.\<close>

lemma hex16_inj: "hex16 u = hex16 v \<Longrightarrow> u = v"
proof -
  assume h: "hex16 u = hex16 v"
  have "(unat u div 16 ^ j) mod 16 = (unat v div 16 ^ j) mod 16" if "j < 16" for j
  proof -
    have "hex16 u ! (15 - j) = hex16 v ! (15 - j)" using h by simp
    moreover have "[0..<16] ! (15 - j) = 15 - j" using nth_upt [of 0 "15 - j" 16] by simp
    moreover have "15 - (15 - j) = j" using that by simp
    ultimately show ?thesis by (intro hex_digit_inj) (simp add: hex16_def)
  qed
  then have "unat u mod 16 ^ 16 = unat v mod 16 ^ 16" by (rule base16_eq)
  moreover have "unat x < 16 ^ 16" for x :: u64 using unsigned_less [of x] by simp
  ultimately have "unat u = unat v" by simp
  then show ?thesis by (simp add: word_unat_eq_iff)
qed

lemma hex16_chars: "c \<in> set (hex16 v) \<Longrightarrow> c \<in> set ''0123456789abcdef''"
proof -
  have "hex_digit n \<in> set ''0123456789abcdef''" for n
    unfolding hex_digit_def by (rule nth_mem) simp
  moreover assume "c \<in> set (hex16 v)"
  then obtain i where "c = hex_digit (unat v div 16 ^ (15 - i))" by (auto simp: hex16_def simp del: upt.simps)
  ultimately show ?thesis by blast
qed

lemma hex16_clean: "slash \<notin> set (hex16 v)" and hex16_no_dot: "CHR ''.'' \<notin> set (hex16 v)"
proof -
  have "slash \<notin> set ''0123456789abcdef''" "CHR ''.'' \<notin> set ''0123456789abcdef''" by (simp_all add: slash_def)
  then show "slash \<notin> set (hex16 v)" "CHR ''.'' \<notin> set (hex16 v)" using hex16_chars by blast+
qed

lemma unique_loop_spec:
  "(unique_loop F draws k n dir pre suf = Inr p \<longrightarrow>
      fs_exists F p = Inr False \<and> (\<exists>j < n. p = candidate_path dir pre suf (draws (k + j)))) \<and>
   ((\<forall>j < n. \<exists>b. fs_exists F (candidate_path dir pre suf (draws (k + j))) = Inr b) \<and>
    (\<exists>j < n. fs_exists F (candidate_path dir pre suf (draws (k + j))) = Inr False) \<longrightarrow>
      (\<exists>q. unique_loop F draws k n dir pre suf = Inr q))"
proof (induction n arbitrary: k)
  case (Suc n)
  let ?c = "candidate_path dir pre suf (draws k)"
  have c: "path_append dir (pre @ GenerateSuffix draws k @ suf) = ?c"
    by (simp add: candidate_path_def GenerateSuffix_def)
  show ?case
  proof (cases "fs_exists F ?c")
    case (Inl e)
    then show ?thesis by (auto simp: c Let_def)
  next
    case (Inr b)
    show ?thesis
    proof (cases b)
      case True
      with Suc.IH [of "Suc k"] Inr show ?thesis
        unfolding unique_loop.simps Let_def c
        by (auto simp: less_Suc_eq_0_disj)
    next
      case False
      with Inr show ?thesis by (auto simp: c Let_def)
    qed
  qed
qed simp

text \<open>
  A temporary path is fresh: what \<open>CreateUniquePath\<close> returns does not exist and is built from
  one of the first thousand draws, and it returns whenever one of these gives a free name. Two
  different draws never give the same name.
\<close>

lemma unique_path_fresh:
  "(CreateUniquePath F draws dir pre suf = Inr p \<longrightarrow>
      fs_exists F p = Inr False \<and> (\<exists>j < 1000. p = path_append dir (pre @ GenerateSuffix draws j @ suf))) \<and>
   ((\<forall>j < 1000. \<exists>b. fs_exists F (path_append dir (pre @ GenerateSuffix draws j @ suf)) = Inr b) \<and>
    (\<exists>j < 1000. fs_exists F (path_append dir (pre @ GenerateSuffix draws j @ suf)) = Inr False) \<longrightarrow>
      (\<exists>q. CreateUniquePath F draws dir pre suf = Inr q)) \<and>
   (GenerateSuffix draws i = GenerateSuffix draws j \<longrightarrow> draws i = draws j)"
  using unique_loop_spec [of F draws 0 1000 dir pre suf p] hex16_inj
  by (simp add: CreateUniquePath_def candidate_path_def GenerateSuffix_def)

definition empty_fs :: fs where
  "empty_fs = \<lparr>nodes = (\<lambda>_. None), cwd = [], may_read = (\<lambda>_. True), may_create = (\<lambda>_. True), tmp_path = Inr ''/tmp''\<rparr>"

text \<open>Evaluating lookups in concrete file systems built from \<open>empty_fs\<close>.\<close>

lemmas path_eval = file_status_def fs_exists_def canonical_path_def is_absolute_def steps_def names_def
  trailing_slash_def slash_def empty_fs_def

lemma unique_path_fresh_example:
  "\<exists>q. CreateUniquePath empty_fs (\<lambda>k. word_of_nat k) ''/tmp'' ''pcap-7-'' ''.pcap'' = Inr q"
proof -
  let ?p = "\<lambda>j. path_append ''/tmp'' (''pcap-7-'' @ GenerateSuffix (\<lambda>k. word_of_nat k) j @ ''.pcap'')"
  have f: "fs_exists empty_fs (?p j) = Inr False" for j
  proof -
    let ?d = "''pcap-7-'' @ GenerateSuffix (\<lambda>k. word_of_nat k) j @ ''.pcap''"
    have "?p j = to_path [''tmp'', ?d]"
      by (simp add: path_append_def is_absolute_def to_path_def slash_def)
    moreover have cl: "\<forall>c \<in> set [''tmp'', ?d]. clean_name c"
      using hex16_clean by (simp add: clean_name_def GenerateSuffix_def) (simp add: slash_def)
    ultimately show ?thesis
      using trailing_to_path [OF cl] names_to_path [OF cl]
      by (simp add: fs_exists_def file_status_def steps_def empty_fs_def to_path_def)
  qed
  have "\<forall>j < 1000. \<exists>b. fs_exists empty_fs (?p j) = Inr b" using f by blast
  moreover have "\<exists>j < 1000. fs_exists empty_fs (?p j) = Inr False" using f [of 0] by (rule_tac x = 0 in exI) simp
  ultimately show ?thesis
    using unique_path_fresh [of empty_fs "\<lambda>k. word_of_nat k" "''/tmp''" "''pcap-7-''" "''.pcap''"] by blast
qed

section \<open>Chunks\<close>

text \<open>The chunks of a file: consecutive, non-empty, of the given size but for the last.\<close>

function file_chunks :: "nat \<Rightarrow> int \<Rightarrow> string \<Rightarrow> (int \<times> string) list" where
  "file_chunks n off content =
     (if n = 0 \<or> content = [] then []
      else (off, take n content) # file_chunks n (off + int (length (take n content))) (drop n content))"
  by pat_completeness auto
termination
  by (relation "measure (\<lambda>(n, off, content). length content)") auto

declare file_chunks.simps [simp del]

lemma file_chunks_Nil [simp]: "file_chunks n off [] = []"
  by (simp add: file_chunks.simps)

lemma file_chunks_content: "0 < n \<Longrightarrow> concat (map snd (file_chunks n off content)) = content"
proof (induction n off content rule: file_chunks.induct)
  case (1 n off content)
  then show ?case by (cases "content = []") (simp_all add: file_chunks.simps [of n off content])
qed

lemma file_chunks_sizes:
  "0 < n \<Longrightarrow> (o1, d) \<in> set (file_chunks n off content) \<Longrightarrow> d \<noteq> [] \<and> length d \<le> n"
proof (induction n off content rule: file_chunks.induct)
  case (1 n off content)
  then show ?case by (cases "content = []") (auto simp: file_chunks.simps [of n off content])
qed

lemma file_chunks_offsets:
  "0 < n \<Longrightarrow> xs @ (o1, d) # ys = file_chunks n off content \<Longrightarrow>
   o1 = off + int (length (concat (map snd xs)))"
proof (induction n off content arbitrary: xs rule: file_chunks.induct)
  case (1 n off content)
  show ?case
  proof (cases xs)
    case Nil
    with "1.prems" show ?thesis
      by (cases "content = []") (auto simp: file_chunks.simps [of n off content])
  next
    case (Cons x xs')
    with "1.prems" have ne: "content \<noteq> []" "x = (off, take n content)"
        "xs' @ (o1, d) # ys = file_chunks n (off + int (length (take n content))) (drop n content)"
      by (auto simp: file_chunks.simps [of n off content] split: if_splits)
    have "\<not> (n = 0 \<or> content = [])" using ne "1.prems"(1) by simp
    from "1.IH" [OF this "1.prems"(1) ne(3)] show ?thesis by (simp add: Cons ne(2))
  qed
qed

text \<open>Passing chunks to a consumer until it reports a failure.\<close>

definition feed :: "(int \<Rightarrow> string \<Rightarrow> 's \<Rightarrow> Status \<times> 's) \<Rightarrow> (int \<times> string) list \<Rightarrow> 's \<Rightarrow> 's" where
  "feed on_chunk cs s = fold (\<lambda>(o1, d) s. snd (on_chunk o1 d s)) cs s"

lemma feed_simps [simp]:
  "feed cb [] s = s" "feed cb ((o1, d) # cs) s = feed cb cs (snd (cb o1 d s))"
  by (simp_all add: feed_def)

lemma stream_loop_feeds:
  assumes "0 < n"
  shows "\<exists>m \<le> length (file_chunks n off content).
     snd (stream_loop n stop k off content cb s) = feed cb (take m (file_chunks n off content)) s \<and>
     (fst (stream_loop n stop k off content cb s) = Status_OK \<longrightarrow> m = length (file_chunks n off content))"
  using assms
proof (induction n stop k off content cb s rule: stream_loop.induct)
  case (1 n stop k off content cb s)
  let ?cs = "file_chunks n off content"
  show ?case
  proof (cases "case stop of None \<Rightarrow> False | Some f \<Rightarrow> f k")
    case True
    then show ?thesis by (intro exI [of _ 0]) (simp add: stream_loop.simps [of n stop k off content])
  next
    case go: False
    show ?thesis
    proof (cases "content = []")
      case True
      with go have "stream_loop n stop k off content cb s = (Status_OK, s)"
        by (subst stream_loop.simps) simp
      with True show ?thesis by simp
    next
      case ne: False
      then have tk: "take n content \<noteq> []" using "1.prems" by simp
      obtain st s1 where cb: "cb off (take n content) s = (st, s1)" by fastforce
      have cs: "?cs = (off, take n content) # file_chunks n (off + int (length (take n content))) (drop n content)"
        using ne "1.prems" by (simp add: file_chunks.simps [of n off content])
      consider (fail) "\<not> status_ok st" | (short) "status_ok st" "length (take n content) < n"
        | (more) "status_ok st" "\<not> length (take n content) < n" by blast
      then show ?thesis
      proof cases
        case fail
        with go tk cb have "stream_loop n stop k off content cb s = (st, s1)"
          by (subst stream_loop.simps) (simp add: Let_def)
        then show ?thesis using fail cb cs by (intro exI [of _ 1]) (auto simp: status_ok_def)
      next
        case short
        then have "length content < n" by simp
        with go tk cb short(1) have "stream_loop n stop k off content cb s = (Status_OK, s1)"
          by (subst stream_loop.simps) (simp add: Let_def)
        moreover have "drop n content = []" using short(2) by simp
        ultimately show ?thesis using cb cs by (intro exI [of _ 1]) simp
      next
        case more
        with go tk cb have eq: "stream_loop n stop k off content cb s =
            stream_loop n stop (Suc k) (off + int (length (take n content))) (drop n content) cb s1"
          by (subst stream_loop.simps) (simp add: Let_def)
        from "1.IH" [OF go refl tk cb [symmetric]] more "1.prems"
        obtain m where "m \<le> length (file_chunks n (off + int (length (take n content))) (drop n content))"
          "snd (stream_loop n stop k off content cb s) =
             feed cb (take m (file_chunks n (off + int (length (take n content))) (drop n content))) s1"
          "fst (stream_loop n stop k off content cb s) = Status_OK \<longrightarrow>
             m = length (file_chunks n (off + int (length (take n content))) (drop n content))"
          unfolding eq by auto
        then show ?thesis using cb cs by (intro exI [of _ "Suc m"]) auto
      qed
    qed
  qed
qed

text \<open>
  Streaming a file delivers its content: the consumer has seen the first chunks of the file, in
  order, all of them if the status is OK. The chunks are not empty, at most of the chunk size, each
  carries the offset at which it starts, and together they are the file.
\<close>

lemma stream_file_delivers:
  assumes "open_in F path = Some content" and n: "n = (if chunk_sz = 0 then 64 * 1024 else chunk_sz)"
  shows "(\<exists>m \<le> length (file_chunks n 0 content).
            snd (StreamFile F path chunk_sz stop cb s) = feed cb (take m (file_chunks n 0 content)) s \<and>
            (fst (StreamFile F path chunk_sz stop cb s) = Status_OK \<longrightarrow> m = length (file_chunks n 0 content))) \<and>
         concat (map snd (file_chunks n 0 content)) = content \<and>
         (\<forall>xs off d ys. file_chunks n 0 content = xs @ (off, d) # ys \<longrightarrow>
            d \<noteq> [] \<and> length d \<le> n \<and> off = int (length (concat (map snd xs))))"
proof -
  have n0: "0 < n" using n by simp
  have "StreamFile F path chunk_sz stop cb s = stream_loop n stop 0 0 content cb s"
    using assms by (simp add: StreamFile_def)
  moreover have "d \<noteq> [] \<and> length d \<le> n \<and> off = int (length (concat (map snd xs)))"
    if e: "file_chunks n 0 content = xs @ (off, d) # ys" for xs off d ys
    using file_chunks_sizes [OF n0, of off d 0 content] file_chunks_offsets [OF n0 e [symmetric]] e by simp
  ultimately show ?thesis
    using stream_loop_feeds [OF n0, of 0 content stop 0 cb s] file_chunks_content [OF n0] by auto
qed

lemma stream_loop_ok: "stream_loop n stop k off content cb s = (st, s1) \<Longrightarrow> status_ok st \<Longrightarrow> st = Status_OK"
proof (induction n stop k off content cb s rule: stream_loop.induct)
  case (1 n stop k off content cb s)
  show ?case
  proof (cases "(case stop of None \<Rightarrow> False | Some f \<Rightarrow> f k) \<or> take n content = []")
    case True
    with "1.prems" show ?thesis by (subst (asm) stream_loop.simps) (auto split: if_splits)
  next
    case False
    obtain st2 s2 where cb: "cb off (take n content) s = (st2, s2)" by fastforce
    from "1.prems" False cb have "(if \<not> status_ok st2 then (st2, s2) else if length (take n content) < n then (Status_OK, s2)
        else stream_loop n stop (Suc k) (off + int (length (take n content))) (drop n content) cb s2) = (st, s1)"
      by (subst (asm) stream_loop.simps) (auto simp: Let_def)
    with "1.IH" [OF _ refl _ cb [symmetric]] "1.prems"(2) False show ?thesis by (auto split: if_splits)
  qed
qed

lemma stream_loop_total:
  assumes "0 < n" and "\<And>o1 d s. fst (cb o1 d s) = Status_OK" and "\<And>j. \<not> (case stop of None \<Rightarrow> False | Some f \<Rightarrow> f j)"
  shows "stream_loop n stop k off content cb s = (Status_OK, feed cb (file_chunks n off content) s)"
  using assms
proof (induction n stop k off content cb s rule: stream_loop.induct)
  case (1 n stop k off content cb s)
  note go = "1.prems"(3) [of k]
  obtain s1 where cb: "cb off (take n content) s = (Status_OK, s1)" using "1.prems"(2) by (metis prod.collapse)
  show ?case
  proof (cases "content = []")
    case True
    then show ?thesis using go by (subst stream_loop.simps) simp
  next
    case False
    then have tk: "take n content \<noteq> []" using "1.prems" by simp
    have cs: "file_chunks n off content =
        (off, take n content) # file_chunks n (off + int (length (take n content))) (drop n content)"
      using False "1.prems" by (simp add: file_chunks.simps [of n off content])
    show ?thesis
    proof (cases "length content < n")
      case True
      then show ?thesis using tk cb cs go by (subst stream_loop.simps) (simp add: Let_def)
    next
      case more: False
      have "stream_loop n stop k off content cb s =
          stream_loop n stop (Suc k) (off + int (length (take n content))) (drop n content) cb s1"
        using tk cb more go by (subst stream_loop.simps) (simp add: Let_def)
      also have "\<dots> = (Status_OK, feed cb (file_chunks n (off + int (length (take n content))) (drop n content)) s1)"
        by (rule "1.IH" [OF go refl tk cb [symmetric]]) (use more "1.prems" in auto)
      finally show ?thesis using cb cs by simp
    qed
  qed
qed

definition one_file :: fs where
  "one_file = empty_fs\<lparr>nodes := [[''f''] \<mapsto> File ''abcde'']\<rparr>"

lemma stream_file_delivers_example:
  "open_in one_file ''/f'' = Some ''abcde'' \<and>
   concat (map snd (file_chunks 2 0 ''abcde'')) = ''abcde'' \<and>
   (\<exists>m \<le> length (file_chunks 2 0 ''abcde'').
      snd (StreamFile one_file ''/f'' 2 None (\<lambda>o1 d s. (Status_OK, s @ [(o1, d)])) []) =
        feed (\<lambda>o1 d s. (Status_OK, s @ [(o1, d)])) (take m (file_chunks 2 0 ''abcde'')) [])"
proof -
  have "open_in one_file ''/f'' = Some ''abcde''"
    by (simp add: open_in_def file_status_def is_absolute_def steps_def names_def trailing_slash_def slash_def
          one_file_def empty_fs_def)
  then show ?thesis
    using stream_file_delivers [of one_file "''/f''" "''abcde''" 2 2 None "\<lambda>o1 d s. (Status_OK, s @ [(o1, d)])" "[]"]
    by auto
qed

end
