(* ===== verification/Log_Ops.thy ===== *)
theory Log_Ops
  imports Log_Parse Temp_File
begin

text \<open>
  Log filtering (second half of \<open>source/zurg/log_ops.cpp\<close>): resolving the base path under the log
  root, the rotated files beside it, copying the matching lines to a temporary file, streaming that
  file back, and cleaning up. The file system is passed through; \<open>draws\<close> are the random numbers
  and \<open>write_ok k\<close> is whether the \<open>k\<close>-th write to the temporary file succeeds. What a file holds is
  read when it is opened.
\<close>

section \<open>Paths\<close>

record Root =
  root_enabled :: bool
  root_canonical :: string

definition MakeRoot :: "fs \<Rightarrow> string \<Rightarrow> Root option" where
  "MakeRoot F root_dir =
     (if root_dir = '''' then Some \<lparr>root_enabled = False, root_canonical = ''''\<rparr>
      else case weakly_canonical F root_dir of
        Inl e \<Rightarrow> None
      | Inr c \<Rightarrow> Some \<lparr>root_enabled = True, root_canonical = c\<rparr>)"

text \<open>The test that no element of the relative path is dot-dot, with the error of \<open>relative\<close> as failure.\<close>

definition inside_root :: "fs \<Rightarrow> Root \<Rightarrow> string \<Rightarrow> bool" where
  "inside_root F root p =
     (case fs_relative F p (root_canonical root) of
        Inl e \<Rightarrow> False
      | Inr rel \<Rightarrow> ''..'' \<notin> set rel)"

definition ResolvePath :: "fs \<Rightarrow> Root \<Rightarrow> string \<Rightarrow> string option" where
  "ResolvePath F root user_path =
     (let target = (if \<not> root_enabled root \<or> is_absolute user_path then user_path
                    else path_append (root_canonical root) user_path);
          normalized =
            (case weakly_canonical F target of
               Inr n \<Rightarrow> Some n
             | Inl e \<Rightarrow>
                 (case weakly_canonical F (parent_path target) of
                    Inl e2 \<Rightarrow> None
                  | Inr n \<Rightarrow> Some (lexically_normal (path_append n (filename target)))))
      in case normalized of
           None \<Rightarrow> None
         | Some n \<Rightarrow> if root_enabled root \<and> \<not> inside_root F root n then None else Some n)"

text \<open>
  The candidates in scan order. The counter is 32 bits wide, so a depth of \<open>UINT32_MAX\<close> never ends
  the loop: \<open>None\<close>.
\<close>

definition rotation_candidates :: "string \<Rightarrow> nat \<Rightarrow> string list" where
  "rotation_candidates base i =
     (base @ ''.'' @ to_string i) #
     (if extension base \<noteq> '''' then [path_append (parent_path base) (stem base @ ''.'' @ to_string i @ extension base)]
      else [])"

definition EnumerateCandidates :: "string \<Rightarrow> bool \<Rightarrow> u32 \<Rightarrow> string list option" where
  "EnumerateCandidates base include_rot rotation_depth =
     (if \<not> include_rot then Some [base]
      else
        (let depth = (if rotation_depth = 0 then 2 else rotation_depth)
         in if depth = - 1 then None
            else Some (base # concat (map (rotation_candidates base) [1..<Suc (unat depth)]))))"

section \<open>Filtering\<close>

record FilterMetrics =
  m_total_size :: int
  m_total_lines :: int
  m_source_files :: "string list"
  m_temp_path :: string

definition empty_metrics :: FilterMetrics where
  "empty_metrics = \<lparr>m_total_size = 0, m_total_lines = 0, m_source_files = [], m_temp_path = ''''\<rparr>"

definition spec_range :: "LogFilterSpec \<Rightarrow> TimeRange" where
  "spec_range spec = \<lparr>range_start = start_time spec, range_end = end_time spec\<rparr>"

text \<open>The three filters a line has to pass once it parses.\<close>

definition line_selected :: "LogFilterSpec \<Rightarrow> string \<Rightarrow> bool" where
  "line_selected spec line =
     (case ParseSpdlogLine line of
        None \<Rightarrow> False
      | Some parsed \<Rightarrow>
          InRange parsed (spec_range spec) \<and> InLevelFilter parsed (map ToLower (level_in spec)) \<and>
          ContainsFilter line (grep_contains spec))"

text \<open>The lambda \<open>enforce_limit\<close>; the limit is cast to a signed 64-bit integer.\<close>

definition enforce_limit :: "LogFilterSpec \<Rightarrow> int \<Rightarrow> nat \<Rightarrow> bool" where
  "enforce_limit spec written to_write =
     (if lf_max_output_bytes spec = 0 then True
      else written + int to_write \<le> as_int64 (lf_max_output_bytes spec))"

text \<open>
  The state of the copy: the file system, the location of the temporary file, the metrics and the
  number of writes made.
\<close>

record copy_state =
  cs_fs :: fs
  cs_out :: location
  cs_metrics :: FilterMetrics
  cs_writes :: nat

definition output_line :: "string \<Rightarrow> string" where
  "output_line line = line @ [CHR 0x0A]"

definition write_line :: "string \<Rightarrow> copy_state \<Rightarrow> copy_state" where
  "write_line line st =
     st\<lparr>cs_fs := append_data (cs_out st) (output_line line) (cs_fs st),
        cs_metrics := (cs_metrics st)
          \<lparr>m_total_size := m_total_size (cs_metrics st) + int (length (output_line line)),
           m_total_lines := m_total_lines (cs_metrics st) + 1\<rparr>,
        cs_writes := Suc (cs_writes st)\<rparr>"

fun copy_lines :: "(nat \<Rightarrow> bool) \<Rightarrow> LogFilterSpec \<Rightarrow> string list \<Rightarrow> copy_state \<Rightarrow> Status \<times> copy_state" where
  "copy_lines write_ok spec [] st = (Status_OK, st)"
| "copy_lines write_ok spec (line # ls) st =
     (if \<not> line_selected spec line then copy_lines write_ok spec ls st
      else if \<not> enforce_limit spec (m_total_size (cs_metrics st)) (length (output_line line)) then
        (Status RESOURCE_EXHAUSTED ''output exceeds limit'', st)
      else if \<not> write_ok (cs_writes st) then (Status INTERNAL ''failed to write temp file'', st)
      else copy_lines write_ok spec ls (write_line line st))"

text \<open>A call returns a status or leaves by an exception that nobody catches.\<close>

datatype outcome = Returned Status | Thrown string

text \<open>What a candidate contributes: nothing, an exception, or a source path.\<close>

definition candidate_source :: "fs \<Rightarrow> Root \<Rightarrow> string \<Rightarrow> string + string option" where
  "candidate_source F root candidate =
     (case weakly_canonical F candidate of
        Inl e \<Rightarrow> Inr None
      | Inr canonical \<Rightarrow>
          (case fs_exists F canonical of
             Inl e \<Rightarrow> Inl (status_what e canonical)
           | Inr ex \<Rightarrow>
               if \<not> ex then Inr None
               else if root_enabled root \<and> \<not> inside_root F root canonical then Inr None
               else Inr (Some canonical)))"

fun copy_files :: "(nat \<Rightarrow> bool) \<Rightarrow> Root \<Rightarrow> LogFilterSpec \<Rightarrow> string list \<Rightarrow> copy_state \<Rightarrow> outcome \<times> copy_state" where
  "copy_files write_ok root spec [] st = (Returned Status_OK, st)"
| "copy_files write_ok root spec (c # cs) st =
     (case candidate_source (cs_fs st) root c of
        Inl what \<Rightarrow> (Thrown what, st)
      | Inr None \<Rightarrow> copy_files write_ok root spec cs st
      | Inr (Some canonical) \<Rightarrow>
          (let st1 = st\<lparr>cs_metrics := (cs_metrics st)\<lparr>m_source_files := m_source_files (cs_metrics st) @ [canonical]\<rparr>\<rparr>
           in case open_in (cs_fs st) canonical of
                None \<Rightarrow> copy_files write_ok root spec cs st1
              | Some content \<Rightarrow>
                  (case copy_lines write_ok spec (getlines content) st1 of
                     (status, st2) \<Rightarrow>
                       if status_ok status then copy_files write_ok root spec cs st2 else (Returned status, st2))))"

text \<open>The metrics pointer may be null; \<open>None\<close> in, \<open>None\<close> out.\<close>

definition FilterLogsToTemp ::
  "fs \<Rightarrow> (nat \<Rightarrow> u64) \<Rightarrow> (nat \<Rightarrow> bool) \<Rightarrow> Root \<Rightarrow> LogOptions \<Rightarrow> LogFilterSpec \<Rightarrow> string list \<Rightarrow>
   FilterMetrics option \<Rightarrow> outcome \<times> fs \<times> FilterMetrics option" where
  "FilterLogsToTemp F draws write_ok root opts spec candidates metrics =
     (case metrics of
        None \<Rightarrow> (Returned (Status INVALID_ARGUMENT ''missing metrics''), F, None)
      | Some m0 \<Rightarrow>
          (case ResolveDirectory F (temp_dir opts) of
             (Inl e, F1) \<Rightarrow> (Returned (Status INTERNAL (errno_message e)), F1, Some empty_metrics)
           | (Inr dir, F1) \<Rightarrow>
               (let base_name = (if output_basename opts = '''' then ''logfilter'' else output_basename opts)
                in case CreateUniquePath F1 draws dir (base_name @ ''-'') '''' of
                     Inl what \<Rightarrow> (Returned (Status INTERNAL what), F1, Some empty_metrics)
                   | Inr path \<Rightarrow>
                       (let m1 = empty_metrics\<lparr>m_temp_path := path\<rparr>
                        in case open_out F1 path of
                             None \<Rightarrow> (Returned (Status INTERNAL ''failed to create temp file''), F1, Some m1)
                           | Some (loc, F2) \<Rightarrow>
                               (case copy_files write_ok root spec candidates
                                       \<lparr>cs_fs = F2, cs_out = loc, cs_metrics = m1, cs_writes = 0\<rparr> of
                                  (res, st) \<Rightarrow> (res, cs_fs st, Some (cs_metrics st)))))))"

section \<open>Streaming and the whole operation\<close>

definition StreamFilteredFile ::
  "fs \<Rightarrow> LogOptions \<Rightarrow> (LogChunk \<Rightarrow> 's \<Rightarrow> Status \<times> 's) \<Rightarrow> FilterMetrics \<Rightarrow> 's \<Rightarrow> Status \<times> fs \<times> 's" where
  "StreamFilteredFile F opts on_chunk metrics s =
     (case StreamFile F (m_temp_path metrics) (chunk_size opts) None
             (\<lambda>off d. on_chunk \<lparr>chunk_offset = off, chunk_data = d\<rparr>) s of
        (status, s1) \<Rightarrow>
          if \<not> status_ok status then (status, F, s1)
          else (Status_OK, if cleanup_temp_file opts then fs_remove F (m_temp_path metrics) else F, s1))"

definition empty_eof :: LogFilterEof where
  "empty_eof = \<lparr>total_size = 0, total_lines = 0, temp_file_path = '''', eof_source_files = []\<rparr>"

text \<open>The removal on the error paths.\<close>

definition cleanup :: "LogOptions \<Rightarrow> FilterMetrics \<Rightarrow> fs \<Rightarrow> fs" where
  "cleanup opts metrics F =
     (if m_temp_path metrics \<noteq> '''' \<and> cleanup_temp_file opts then fs_remove F (m_temp_path metrics) else F)"

text \<open>
  \<open>has_eof\<close> is whether the caller passed a place for the trailer, \<open>on_chunk\<close> the consumer if any. The
  result is how the call ended, the file system, the trailer and the consumer's state; \<open>None\<close> is a
  call that does not end.
\<close>

definition StreamLogFilter ::
  "fs \<Rightarrow> (nat \<Rightarrow> u64) \<Rightarrow> (nat \<Rightarrow> bool) \<Rightarrow> LogOptions \<Rightarrow> LogFilterSpec \<Rightarrow>
   (LogChunk \<Rightarrow> 's \<Rightarrow> Status \<times> 's) option \<Rightarrow> bool \<Rightarrow> 's \<Rightarrow> (outcome \<times> fs \<times> LogFilterEof \<times> 's) option" where
  "StreamLogFilter F draws write_ok opts spec on_chunk has_eof s =
     (let fail = (\<lambda>code msg. Some (Returned (Status code msg), F, empty_eof, s))
      in if \<not> has_eof then fail INVALID_ARGUMENT ''missing eof''
         else case on_chunk of
           None \<Rightarrow> fail INVALID_ARGUMENT ''missing chunk callback''
         | Some consumer \<Rightarrow>
             if compress spec then fail UNIMPLEMENTED ''compress not supported''
             else case MakeRoot F (log_root opts) of
               None \<Rightarrow> fail FAILED_PRECONDITION ''invalid log root''
             | Some root \<Rightarrow>
                 if base_path opts = '''' then fail FAILED_PRECONDITION ''missing log base path''
                 else case ResolvePath F root (base_path opts) of
                   None \<Rightarrow> fail PERMISSION_DENIED ''base path outside root''
                 | Some resolved \<Rightarrow>
                     (case EnumerateCandidates resolved (include_rotations opts) (rotation_scan_depth opts) of
                        None \<Rightarrow> None
                      | Some candidates \<Rightarrow>
                          (case FilterLogsToTemp F draws write_ok root opts spec candidates (Some empty_metrics) of
                             (Thrown what, F1, m) \<Rightarrow> Some (Thrown what, F1, empty_eof, s)
                           | (Returned status, F1, m) \<Rightarrow>
                               (let metrics = the m
                                in if \<not> status_ok status then
                                     Some (Returned status, cleanup opts metrics F1, empty_eof, s)
                                   else
                                     (case StreamFilteredFile F1 opts consumer metrics s of
                                        (status2, F2, s2) \<Rightarrow>
                                          if \<not> status_ok status2 then
                                            Some (Returned status2, cleanup opts metrics F2, empty_eof, s2)
                                          else
                                            Some (Returned Status_OK,
                                              if cleanup_temp_file opts then fs_remove F2 (m_temp_path metrics) else F2,
                                              \<lparr>total_size = m_total_size metrics, total_lines = m_total_lines metrics,
                                               temp_file_path = m_temp_path metrics,
                                               eof_source_files = m_source_files metrics\<rparr>, s2))))))"

end
