(* ===== verification/Pcap_Ops.thy ===== *)
theory Pcap_Ops
  imports Ops_Proto "HOL-Library.Signed_Division"
begin

text \<open>
  Packet capture (\<open>source/zurg/pcap_ops.cpp\<close>). libpcap is a parameter: a record of the functions
  the code calls, over an abstract handle. The clock, the random numbers and the answers of
  \<open>should_stop\<close> are an environment: the \<open>k\<close>-th question has the \<open>k\<close>-th answer. Durations and times
  are nanoseconds. The capture loops have no bound of their own and take fuel; \<open>None\<close> is a capture
  that still runs.
\<close>

section \<open>Environment and library\<close>

text \<open>
  \<open>wall k\<close> is the system time of the \<open>k\<close>-th packet, \<open>len_draw k\<close> the length the distribution draws
  for it and \<open>byte_draw k i\<close> its \<open>i\<close>-th byte.
\<close>

record capture_env =
  stop_fn :: "(nat \<Rightarrow> bool) option"
  clock :: "nat \<Rightarrow> int"
  wall :: "nat \<Rightarrow> int"
  len_draw :: "nat \<Rightarrow> int"
  byte_draw :: "nat \<Rightarrow> nat \<Rightarrow> char"

definition should_stop :: "capture_env \<Rightarrow> nat \<Rightarrow> bool" where
  "should_stop env k = (case stop_fn env of None \<Rightarrow> False | Some f \<Rightarrow> f k)"

datatype pcap_direction = PCAP_D_INOUT | PCAP_D_IN | PCAP_D_OUT

record pkthdr =
  hdr_sec :: int
  hdr_usec :: int
  caplen :: u32
  hdr_len :: u32

datatype next_result = NextTimeout | NextEof | NextError string | NextPacket pkthdr string

record ('h, 'p) pcap_lib =
  open_live :: "string \<Rightarrow> int \<Rightarrow> int \<Rightarrow> int \<Rightarrow> string + 'h"
  direction_macro :: "pcap_direction \<Rightarrow> bool"
  setdirection :: "'h \<Rightarrow> pcap_direction \<Rightarrow> 'h"
  compile_filter :: "'h \<Rightarrow> string \<Rightarrow> string + 'p"
  setfilter :: "'h \<Rightarrow> 'p \<Rightarrow> string + 'h"
  datalink_of :: "'h \<Rightarrow> int"
  next_ex :: "'h \<Rightarrow> next_result \<times> 'h"
  raw_stats :: "'h \<Rightarrow> (u32 \<times> u32 \<times> u32) option"

text \<open>Calls that acquire and release resources of the library, in order.\<close>

datatype pcap_event = OpenHandle | CloseHandle | CompileCode | FreeCode

definition DLT_EN10MB :: int where
  "DLT_EN10MB = 1"

section \<open>Synthetic packets\<close>

definition ExtractDuration :: "PcapSpec \<Rightarrow> int" where
  "ExtractDuration spec =
     (case duration spec of None \<Rightarrow> 0 | Some d \<Rightarrow> dur_seconds d * 1000000000 + dur_nanos d)"

definition empty_stats :: PcapStats where
  "empty_stats = \<lparr>received = 0, dropped = 0, if_dropped = 0\<rparr>"

definition len_range :: "PcapSpec \<Rightarrow> int \<times> int" where
  "len_range spec = (60, if snaplen spec \<noteq> 0 then sint (snaplen spec) else 256)"

definition synthetic_limit :: "PcapSpec \<Rightarrow> u64" where
  "synthetic_limit spec =
     (if packet_limit spec = 0 \<and> ExtractDuration spec = 0 then 10 else packet_limit spec)"

definition synthetic_packet :: "capture_env \<Rightarrow> PcapSpec \<Rightarrow> nat \<Rightarrow> PcapPacket" where
  "synthetic_packet env spec k =
     (let trim = payload_trim_bytes spec;
          len = (if trim \<noteq> 0 \<and> trim < word_of_int (len_draw env k) then sint trim else len_draw env k)
      in \<lparr>pkt_ts = \<lparr>seconds = wall env k sdiv 1000000000, nanos = wall env k smod 1000000000\<rparr>,
          orig_len = word_of_int len,
          pkt_data = map (byte_draw env k) [0..<nat len]\<rparr>)"

text \<open>
  The loop: \<open>k\<close> counts the rounds, each of which produces one packet or ends the loop. The start time
  is the clock's reading 0.
\<close>

fun synthetic_loop ::
  "nat \<Rightarrow> capture_env \<Rightarrow> PcapSpec \<Rightarrow> (int \<Rightarrow> PcapPacket \<Rightarrow> 's \<Rightarrow> Status \<times> 's) \<Rightarrow> nat \<Rightarrow> u64 \<Rightarrow> 's \<Rightarrow>
   (Status \<times> u64 \<times> 's) option" where
  "synthetic_loop 0 env spec on_packet k produced s = None"
| "synthetic_loop (Suc n) env spec on_packet k produced s =
     (if should_stop env k then Some (Status CANCELLED ''capture cancelled'', produced, s)
      else if synthetic_limit spec \<noteq> 0 \<and> produced \<ge> synthetic_limit spec then Some (Status_OK, produced, s)
      else if ExtractDuration spec \<noteq> 0 \<and> clock env (Suc k) - clock env 0 \<ge> ExtractDuration spec
           then Some (Status_OK, produced, s)
      else case on_packet DLT_EN10MB (synthetic_packet env spec k) s of
             (st, s1) \<Rightarrow>
               if \<not> status_ok st then Some (st, produced, s1)
               else synthetic_loop n env spec on_packet (Suc k) (produced + 1) s1)"

text \<open>
  The result is the status, the statistics, the link type and the consumer's state. The link type
  pointer may be null, the statistics pointer too; the consumer reads the link type when called.
\<close>

definition GenerateSynthetic ::
  "nat \<Rightarrow> capture_env \<Rightarrow> PcapSpec \<Rightarrow> (int \<Rightarrow> PcapPacket \<Rightarrow> 's \<Rightarrow> Status \<times> 's) option \<Rightarrow> bool \<Rightarrow> int \<Rightarrow> 's \<Rightarrow>
   (Status \<times> PcapStats \<times> int \<times> 's) option" where
  "GenerateSynthetic fuel env spec on_packet has_stats datalink s =
     (case on_packet of
        None \<Rightarrow> Some (Status INVALID_ARGUMENT ''missing packet callback'', empty_stats, datalink, s)
      | Some consumer \<Rightarrow>
          if \<not> has_stats then Some (Status INVALID_ARGUMENT ''missing stats'', empty_stats, datalink, s)
          else
            (case synthetic_loop fuel env spec consumer 0 0 s of
               None \<Rightarrow> None
             | Some (st, produced, s1) \<Rightarrow>
                 Some (st, if status_ok st then empty_stats\<lparr>received := produced\<rparr> else empty_stats, DLT_EN10MB, s1)))"

section \<open>Live capture\<close>

definition live_packet :: "PcapSpec \<Rightarrow> pkthdr \<Rightarrow> string \<Rightarrow> PcapPacket" where
  "live_packet spec hdr data =
     (let trim = payload_trim_bytes spec;
          copy_len = (if trim > 0 \<and> trim < caplen hdr then trim else caplen hdr)
      in \<lparr>pkt_ts = \<lparr>seconds = hdr_sec hdr, nanos = signed_take_bit 31 (hdr_usec hdr * 1000)\<rparr>,
          orig_len = hdr_len hdr, pkt_data = take (unat copy_len) data\<rparr>)"

text \<open>\<open>Inl\<close> leaves by a return, \<open>Inr\<close> by a break, with the number of packets captured.\<close>

fun live_loop ::
  "nat \<Rightarrow> ('h, 'p) pcap_lib \<Rightarrow> capture_env \<Rightarrow> PcapSpec \<Rightarrow> (int \<Rightarrow> PcapPacket \<Rightarrow> 's \<Rightarrow> Status \<times> 's) \<Rightarrow>
   nat \<Rightarrow> u64 \<Rightarrow> 'h \<Rightarrow> int \<Rightarrow> 's \<Rightarrow> ((Status + u64) \<times> 'h \<times> 's) option" where
  "live_loop 0 L env spec on_packet k captured h datalink s = None"
| "live_loop (Suc n) L env spec on_packet k captured h datalink s =
     (if should_stop env k then Some (Inl (Status CANCELLED ''capture cancelled''), h, s)
      else if packet_limit spec \<noteq> 0 \<and> captured \<ge> packet_limit spec then Some (Inr captured, h, s)
      else if ExtractDuration spec \<noteq> 0 \<and> clock env (Suc k) \<ge> clock env 0 + ExtractDuration spec
           then Some (Inr captured, h, s)
      else case next_ex L h of
             (NextTimeout, h1) \<Rightarrow> live_loop n L env spec on_packet (Suc k) captured h1 datalink s
           | (NextEof, h1) \<Rightarrow> Some (Inr captured, h1, s)
           | (NextError msg, h1) \<Rightarrow>
               Some (Inl (Status UNKNOWN (if msg = '''' then ''pcap_next_ex failed'' else msg)), h1, s)
           | (NextPacket hdr data, h1) \<Rightarrow>
               (case on_packet datalink (live_packet spec hdr data) s of
                  (st, s1) \<Rightarrow>
                    if \<not> status_ok st then Some (Inl st, h1, s1)
                    else live_loop n L env spec on_packet (Suc k) (captured + 1) h1 datalink s1))"

text \<open>
  The switch on the direction is compiled only where the preprocessor knows the names of the
  directions: \<open>direction_macro\<close> says which ones the library's header defines as macros.
\<close>

definition apply_direction :: "('h, 'p) pcap_lib \<Rightarrow> PcapSpec \<Rightarrow> 'h \<Rightarrow> 'h" where
  "apply_direction L spec h =
     (if \<not> direction_macro L PCAP_D_INOUT then h
      else case direction spec of
             INGRESS \<Rightarrow> if direction_macro L PCAP_D_IN then setdirection L h PCAP_D_IN else h
           | EGRESS \<Rightarrow> if direction_macro L PCAP_D_OUT then setdirection L h PCAP_D_OUT else h
           | BOTH \<Rightarrow> setdirection L h PCAP_D_INOUT
           | DIR_UNSPECIFIED \<Rightarrow> h)"

text \<open>Compiling and setting the filter: an error status or the handle, and what was acquired and released.\<close>

definition apply_filter :: "('h, 'p) pcap_lib \<Rightarrow> PcapSpec \<Rightarrow> 'h \<Rightarrow> (Status + 'h) \<times> pcap_event list" where
  "apply_filter L spec h =
     (case pcap_filter spec of
        Bpf expr \<Rightarrow>
          if expr = '''' then (Inr h, [])
          else
            (case compile_filter L h expr of
               Inl msg \<Rightarrow>
                 (Inl (Status INVALID_ARGUMENT (if msg = '''' then ''failed to compile filter'' else msg)), [CloseHandle])
             | Inr prog \<Rightarrow>
                 (case setfilter L h prog of
                    Inl msg \<Rightarrow>
                      (Inl (Status FAILED_PRECONDITION (if msg = '''' then ''failed to apply filter'' else msg)),
                       [CompileCode, FreeCode, CloseHandle])
                  | Inr h1 \<Rightarrow> (Inr h1, [CompileCode, FreeCode])))
      | Structured \<Rightarrow>
          (Inl (Status UNIMPLEMENTED ''structured filters are not implemented''), [CloseHandle])
      | FILTER_NOT_SET \<Rightarrow> (Inr h, []))"

definition final_stats :: "('h, 'p) pcap_lib \<Rightarrow> 'h \<Rightarrow> u64 \<Rightarrow> PcapStats" where
  "final_stats L h captured =
     (case raw_stats L h of
        Some (recv, drp, ifdrop) \<Rightarrow> \<lparr>received = ucast recv, dropped = ucast drp, if_dropped = ucast ifdrop\<rparr>
      | None \<Rightarrow> empty_stats\<lparr>received := captured\<rparr>)"

text \<open>\<open>snaplen\<close> as the \<open>int\<close> that libpcap is given.\<close>

definition live_snaplen :: "PcapSpec \<Rightarrow> int" where
  "live_snaplen spec = (if snaplen spec > 0 then sint (snaplen spec) else 65535)"

record 's capture =
  cap_status :: Status
  cap_stats :: PcapStats
  cap_datalink :: int
  cap_state :: 's
  cap_events :: "pcap_event list"

definition StreamCapture ::
  "nat \<Rightarrow> ('h, 'p) pcap_lib \<Rightarrow> capture_env \<Rightarrow> PcapSpec \<Rightarrow> (int \<Rightarrow> PcapPacket \<Rightarrow> 's \<Rightarrow> Status \<times> 's) option \<Rightarrow>
   bool \<Rightarrow> int \<Rightarrow> 's \<Rightarrow> 's capture option" where
  "StreamCapture fuel L env spec on_packet has_stats datalink s =
     (let ret = (\<lambda>st stats dl s evs. Some \<lparr>cap_status = st, cap_stats = stats, cap_datalink = dl, cap_state = s, cap_events = evs\<rparr>)
      in case on_packet of
           None \<Rightarrow> ret (Status INVALID_ARGUMENT ''missing packet callback'') empty_stats datalink s []
         | Some consumer \<Rightarrow>
             if \<not> has_stats then ret (Status INVALID_ARGUMENT ''missing stats'') empty_stats datalink s []
             else if if_name spec = '''' then
               (case GenerateSynthetic fuel env spec on_packet has_stats datalink s of
                  None \<Rightarrow> None
                | Some (st, stats, dl, s1) \<Rightarrow> ret st stats dl s1 [])
             else
               (case open_live L (if_name spec) (live_snaplen spec) (if promisc spec then 1 else 0) 1000 of
                  Inl err \<Rightarrow>
                    ret (Status FAILED_PRECONDITION (if err = '''' then ''pcap_open_live failed'' else err)) empty_stats datalink s []
                | Inr h \<Rightarrow>
                    (case apply_filter L spec (apply_direction L spec h) of
                       (Inl st, evs) \<Rightarrow> ret st empty_stats datalink s (OpenHandle # evs)
                     | (Inr h1, evs) \<Rightarrow>
                         (case live_loop fuel L env spec consumer 0 0 h1 (datalink_of L h1) s of
                            None \<Rightarrow> None
                          | Some (Inl st, h2, s1) \<Rightarrow>
                              ret st empty_stats (datalink_of L h1) s1 (OpenHandle # evs @ [CloseHandle])
                          | Some (Inr captured, h2, s1) \<Rightarrow>
                              ret Status_OK (final_stats L h2 captured) (datalink_of L h1) s1
                                (OpenHandle # evs @ [CloseHandle])))))"

text \<open>\<open>GenerateCapture\<close> collects the packets; the result pointer may be null.\<close>

definition collect :: "int \<Rightarrow> PcapPacket \<Rightarrow> PcapPacket list \<Rightarrow> Status \<times> PcapPacket list" where
  "collect datalink pkt pkts = (Status_OK, pkts @ [pkt])"

definition GenerateCapture ::
  "nat \<Rightarrow> ('h, 'p) pcap_lib \<Rightarrow> capture_env \<Rightarrow> PcapSpec \<Rightarrow> bool \<Rightarrow> (Status \<times> PcapPacket list \<times> PcapStats) option" where
  "GenerateCapture fuel L env spec has_result =
     (if \<not> has_result then Some (Status INVALID_ARGUMENT ''missing result'', [], empty_stats)
      else
        (case StreamCapture fuel L (env\<lparr>stop_fn := None\<rparr>) spec (Some collect) True DLT_EN10MB [] of
           None \<Rightarrow> None
         | Some c \<Rightarrow> Some (cap_status c, cap_state c, cap_stats c)))"

section \<open>Properties\<close>

text \<open>What \<open>apply_filter\<close> acquires it releases, and an error also closes the handle.\<close>

definition filter_trace :: "(Status + 'h) \<times> pcap_event list \<Rightarrow> bool" where
  "filter_trace r =
     (case r of
        (Inl st, evs) \<Rightarrow> evs = [CloseHandle] \<or> evs = [CompileCode, FreeCode, CloseHandle]
      | (Inr h, evs) \<Rightarrow> evs = [] \<or> evs = [CompileCode, FreeCode])"

lemma apply_filter_trace: "filter_trace (apply_filter L spec h)"
  by (simp add: filter_trace_def apply_filter_def split: PcapFilter.splits sum.splits)

text \<open>
  C22. Libpcap resources are released on every path: whatever the library, the consumer and the
  environment answer, a capture that returns has closed the handle it opened, once and as its last
  call, and freed the filter program it compiled before that.
\<close>

theorem capture_releases:
  assumes "StreamCapture fuel L env spec on_packet has_stats datalink s = Some c"
  shows "cap_events c = [] \<or>
         (\<exists>evs. cap_events c = OpenHandle # evs @ [CloseHandle] \<and> (evs = [] \<or> evs = [CompileCode, FreeCode]))"
proof (cases "if_name spec = '''' \<or> on_packet = None \<or> \<not> has_stats")
  case True
  then show ?thesis using assms by (auto simp: StreamCapture_def Let_def split: option.splits if_splits)
next
  case False
  then obtain consumer where co: "on_packet = Some consumer" by auto
  show ?thesis
  proof (cases "open_live L (if_name spec) (live_snaplen spec) (if promisc spec then 1 else 0) 1000")
    case (Inl err)
    then show ?thesis using assms False co by (auto simp: StreamCapture_def Let_def)
  next
    case (Inr h)
    obtain r evs where f: "apply_filter L spec (apply_direction L spec h) = (r, evs)" by fastforce
    have tr: "filter_trace (r, evs)" using apply_filter_trace [of L spec "apply_direction L spec h"] by (simp only: f)
    show ?thesis
    proof (cases r)
      case (Inl st)
      then show ?thesis using assms False co f tr \<open>open_live _ _ _ _ _ = _\<close>
        by (auto simp: StreamCapture_def Let_def filter_trace_def)
    next
      case (Inr h1)
      then show ?thesis using assms False co f tr \<open>open_live _ _ _ _ _ = _\<close>
        by (auto simp: StreamCapture_def Let_def filter_trace_def split: sum.splits option.splits)
    qed
  qed
qed

text \<open>The synthetic source, run to its packet limit.\<close>

definition deliver :: "(int \<Rightarrow> PcapPacket \<Rightarrow> 's \<Rightarrow> Status \<times> 's) \<Rightarrow> int \<Rightarrow> PcapPacket list \<Rightarrow> 's \<Rightarrow> 's" where
  "deliver on_packet dl pkts s = fold (\<lambda>p s. snd (on_packet dl p s)) pkts s"

lemma deliver_simps [simp]:
  "deliver f dl [] s = s" "deliver f dl (p # ps) s = deliver f dl ps (snd (f dl p s))"
  by (simp_all add: deliver_def)

lemma synthetic_loop_counts:
  assumes "\<And>k. \<not> should_stop env k" and "\<And>p s. fst (on_packet DLT_EN10MB p s) = Status_OK"
    and dur: "ExtractDuration spec = 0" and lim: "k + m = unat (synthetic_limit spec)"
  shows "synthetic_loop (Suc m) env spec on_packet k (word_of_nat k) s =
     Some (Status_OK, synthetic_limit spec, deliver on_packet DLT_EN10MB (map (synthetic_packet env spec) [k..<k + m]) s)"
  using lim
proof (induction m arbitrary: k s)
  have pos: "synthetic_limit spec \<noteq> 0" using dur by (auto simp: synthetic_limit_def)
  case 0
  then have "word_of_nat k = synthetic_limit spec" by simp
  with assms(1) pos show ?case by simp
next
  case (Suc m)
  have lt: "k < unat (synthetic_limit spec)" using Suc.prems by simp
  then have "unat (word_of_nat k :: u64) = k"
    by (intro le_unat_uoi [of _ "synthetic_limit spec"]) simp
  with lt have "\<not> synthetic_limit spec \<le> word_of_nat k" by (simp add: word_le_nat_alt)
  moreover obtain s1 where "on_packet DLT_EN10MB (synthetic_packet env spec k) s = (Status_OK, s1)"
    using assms(2) by (metis prod.collapse)
  moreover have "k # [Suc k..<Suc (k + m)] = [k..<Suc (k + m)]" by (simp add: upt_conv_Cons)
  ultimately show ?case
    using Suc.IH [of "Suc k" s1] Suc.prems assms(1) dur
    by (simp add: add.commute [of 1] del: synthetic_loop.simps upt_Suc)
       (simp add: synthetic_loop.simps(2) upt_conv_Cons del: upt_Suc)
qed

lemma StreamCapture_synthetic:
  assumes "\<And>k. \<not> should_stop env k" and "\<And>p s. fst (consumer DLT_EN10MB p s) = Status_OK"
    and "ExtractDuration spec = 0" and "if_name spec = ''''"
    and n: "n = (if packet_limit spec = 0 then 10 else unat (packet_limit spec))"
  shows "StreamCapture (Suc n) L env spec (Some consumer) True dl s =
     Some \<lparr>cap_status = Status_OK, cap_stats = \<lparr>received = word_of_nat n, dropped = 0, if_dropped = 0\<rparr>,
       cap_datalink = DLT_EN10MB,
       cap_state = deliver consumer DLT_EN10MB (map (synthetic_packet env spec) [0..<n]) s, cap_events = []\<rparr>"
proof -
  have lim: "unat (synthetic_limit spec) = n" using assms(3) n by (simp add: synthetic_limit_def)
  then have "synthetic_limit spec = word_of_nat n" by auto
  have "synthetic_loop (Suc n) env spec consumer 0 0 s =
     Some (Status_OK, synthetic_limit spec, deliver consumer DLT_EN10MB (map (synthetic_packet env spec) [0..<n]) s)"
    using synthetic_loop_counts [of env consumer spec 0 n s] assms(1-3) lim by simp
  with \<open>synthetic_limit spec = word_of_nat n\<close> assms(4) show ?thesis
    by (simp add: StreamCapture_def GenerateSynthetic_def empty_stats_def Let_def del: synthetic_loop.simps)
qed


text \<open>An example: three synthetic packets of four bytes, with a library that is never asked.\<close>

definition no_pcap :: "(unit, unit) pcap_lib" where
  "no_pcap = \<lparr>open_live = \<lambda>_ _ _ _. Inl ''no pcap'', direction_macro = \<lambda>_. False, setdirection = \<lambda>h _. h,
     compile_filter = \<lambda>_ _. Inr (), setfilter = \<lambda>h _. Inr h, datalink_of = \<lambda>_. 1,
     next_ex = \<lambda>h. (NextTimeout, h), raw_stats = \<lambda>_. None\<rparr>"

definition quiet_env :: capture_env where
  "quiet_env = \<lparr>stop_fn = None, clock = \<lambda>k. int k, wall = \<lambda>k. int k, len_draw = \<lambda>k. 64, byte_draw = \<lambda>k i. CHR ''x''\<rparr>"

definition three_packets :: PcapSpec where
  "three_packets = \<lparr>if_name = [], direction = DIR_UNSPECIFIED, pcap_filter = FILTER_NOT_SET, duration = None,
     packet_limit = 3, snaplen = 0, payload_trim_bytes = 4, promisc = False\<rparr>"

lemma three_packets_setup:
  "\<not> should_stop quiet_env k" "fst (collect dl p ps) = Status_OK" "ExtractDuration three_packets = 0"
  "if_name three_packets = []" "packet_limit three_packets = 3" "payload_trim_bytes three_packets = 4"
  "len_draw quiet_env k = 64"
  by (simp_all add: should_stop_def quiet_env_def collect_def ExtractDuration_def three_packets_def)


text \<open>A live capture whose filter does not compile.\<close>

definition bad_filter :: "(unit, unit) pcap_lib" where
  "bad_filter = no_pcap\<lparr>open_live := \<lambda>_ _ _ _. Inr (), compile_filter := \<lambda>_ _. Inl ''syntax error''\<rparr>"

theorem capture_releases_witness:
  "\<exists>c. StreamCapture 1 bad_filter quiet_env (three_packets\<lparr>if_name := ''eth0'', pcap_filter := Bpf ''tcp prt''\<rparr>)
         (Some collect) True 0 [] = Some c \<and> cap_status c = Status INVALID_ARGUMENT ''syntax error'' \<and>
       (cap_events c = [] \<or>
        (\<exists>evs. cap_events c = OpenHandle # evs @ [CloseHandle] \<and> (evs = [] \<or> evs = [CompileCode, FreeCode])))"
proof -
  obtain c where c: "StreamCapture 1 bad_filter quiet_env (three_packets\<lparr>if_name := ''eth0'', pcap_filter := Bpf ''tcp prt''\<rparr>)
         (Some collect) True 0 [] = Some c" "cap_status c = Status INVALID_ARGUMENT ''syntax error''"
    by (simp add: StreamCapture_def bad_filter_def no_pcap_def three_packets_def apply_filter_def apply_direction_def Let_def)
  from capture_releases [OF c(1)] c show ?thesis by blast
qed

text \<open>Bounds of a collected capture.\<close>

definition trimmed :: "PcapSpec \<Rightarrow> PcapPacket \<Rightarrow> bool" where
  "trimmed spec p = (payload_trim_bytes spec \<noteq> 0 \<longrightarrow> length (pkt_data p) \<le> unat (payload_trim_bytes spec))"

lemma live_packet_trimmed: "trimmed spec (live_packet spec hdr data)"
  by (auto simp: trimmed_def live_packet_def Let_def word_less_nat_alt unat_eq_0 not_less)

lemma synthetic_packet_trimmed:
  assumes "len_draw env k < 2 ^ 32"
  shows "trimmed spec (synthetic_packet env spec k)"
proof (cases "payload_trim_bytes spec < word_of_int (len_draw env k)")
  case True
  have "nat (sint (payload_trim_bytes spec)) \<le> unat (payload_trim_bytes spec)"
    using order_trans [OF _ uint_ge_0, of "- 2147483648" "payload_trim_bytes spec"]
    by (simp add: nat_le_iff sint_uint signed_take_bit_int_less_eq_self_iff)
  with True show ?thesis by (simp add: trimmed_def synthetic_packet_def Let_def)
next
  case False
  then have "uint (word_of_int (len_draw env k) :: u32) \<le> uint (payload_trim_bytes spec)"
    by (simp add: word_less_def not_less)
  with assms have "nat (len_draw env k) \<le> unat (payload_trim_bytes spec)"
    by (cases "0 \<le> len_draw env k") (simp_all add: unsigned_of_int take_bit_int_eq_self nat_le_iff)
  with False show ?thesis by (simp add: trimmed_def synthetic_packet_def Let_def)
qed

lemma counter_step:
  fixes c l :: u64
  assumes "\<not> l \<le> c"
  shows "unat (c + 1) = Suc (unat c)" and "c + 1 \<le> l"
proof -
  have "c \<noteq> - 1" using assms by auto
  then show "unat (c + 1) = Suc (unat c)" by (metis Word.unatSuc add.commute add_eq_0_iff)
  with assms show "c + 1 \<le> l" by (simp add: word_le_nat_alt)
qed

text \<open>The number of collected packets is the counter, which stays below a limit that is set.\<close>

definition within :: "u64 \<Rightarrow> u64 \<Rightarrow> PcapPacket list \<Rightarrow> bool" where
  "within limit produced pkts = (limit \<noteq> 0 \<longrightarrow> length pkts = unat produced \<and> produced \<le> limit)"

lemma within_step:
  "within limit produced pkts \<Longrightarrow> \<not> (limit \<noteq> 0 \<and> limit \<le> produced) \<Longrightarrow> within limit (produced + 1) (pkts @ [p])"
  using counter_step [of limit produced] by (auto simp: within_def)

lemma synthetic_loop_within:
  "synthetic_loop n env spec collect k produced pkts = Some (st, produced1, pkts1) \<Longrightarrow>
   within (synthetic_limit spec) produced pkts \<Longrightarrow> within (synthetic_limit spec) produced1 pkts1"
proof (induction n arbitrary: k produced pkts)
  case (Suc n)
  then show ?case
    using Suc.IH [of "Suc k" "produced + 1"] within_step [of "synthetic_limit spec" produced pkts]
    by (auto simp: collect_def split: if_splits)
qed simp

lemma live_loop_within:
  "live_loop n L env spec collect k captured h dl pkts = Some (r, h1, pkts1) \<Longrightarrow>
   within (packet_limit spec) captured pkts \<Longrightarrow> \<exists>captured1. within (packet_limit spec) captured1 pkts1"
proof (induction n arbitrary: k captured h pkts)
  case (Suc n)
  obtain x h2 where x: "next_ex L h = (x, h2)" by fastforce
  show ?case
    using Suc.prems x Suc.IH [of "Suc k" "captured + 1" h2] Suc.IH [of "Suc k" captured h2]
      within_step [of "packet_limit spec" captured pkts]
    by (cases x) (auto simp: collect_def split: if_splits)
qed simp

text \<open>A property of every packet a source can produce holds of every packet collected.\<close>

lemma synthetic_loop_packets:
  assumes P: "\<And>k. P (synthetic_packet env spec k)"
  shows "synthetic_loop n env spec collect k produced pkts = Some (st, m, pkts1) \<Longrightarrow> list_all P pkts \<Longrightarrow> list_all P pkts1"
proof (induction n arbitrary: k produced pkts)
  case (Suc n)
  from Suc.prems Suc.IH [of "Suc k" "produced + 1" "pkts @ [synthetic_packet env spec k]"] P [of k]
  show ?case by (auto simp: collect_def split: if_splits)
qed simp

lemma live_loop_packets:
  assumes P: "\<And>hdr data. P (live_packet spec hdr data)"
  shows "live_loop n L env spec collect k captured h dl pkts = Some (r, h1, pkts1) \<Longrightarrow> list_all P pkts \<Longrightarrow> list_all P pkts1"
proof (induction n arbitrary: k captured h pkts)
  case (Suc n)
  obtain x h2 where x: "next_ex L h = (x, h2)" by fastforce
  show ?case
  proof (cases x)
    case (NextPacket hdr data)
    from Suc.prems x NextPacket Suc.IH [of "Suc k" "captured + 1" h2 "pkts @ [live_packet spec hdr data]"] P [of hdr data]
    show ?thesis by (auto simp: collect_def split: if_splits)
  qed (use Suc.prems x Suc.IH [of "Suc k" captured h2 pkts] in \<open>auto split: if_splits\<close>)
qed simp

lemma StreamCapture_loops:
  assumes "StreamCapture fuel L env spec (Some consumer) True dl s = Some c"
  shows "cap_state c = s \<or>
         (\<exists>st n. synthetic_loop fuel env spec consumer 0 0 s = Some (st, n, cap_state c)) \<or>
         (\<exists>h r h1. live_loop fuel L env spec consumer 0 0 h (datalink_of L h) s = Some (r, h1, cap_state c))"
proof (cases "if_name spec = []")
  case True
  with assms show ?thesis by (auto simp: StreamCapture_def GenerateSynthetic_def Let_def split: option.splits)
next
  case False
  show ?thesis
  proof (cases "open_live L (if_name spec) (live_snaplen spec) (if promisc spec then 1 else 0) 1000")
    case (Inl err)
    then show ?thesis using assms False by (auto simp: StreamCapture_def Let_def)
  next
    case opened: (Inr h)
    obtain r evs where f: "apply_filter L spec (apply_direction L spec h) = (r, evs)" by fastforce
    show ?thesis
    proof (cases r)
      case (Inl st)
      then show ?thesis using assms False opened f by (auto simp: StreamCapture_def Let_def)
    next
      case (Inr h1)
      then show ?thesis using assms False opened f
        by (cases "live_loop fuel L env spec consumer 0 0 h1 (datalink_of L h1) s")
           (auto simp: StreamCapture_def Let_def split: sum.splits)
    qed
  qed
qed

lemma StreamCapture_packets:
  assumes run: "StreamCapture fuel L env spec (Some collect) True dl [] = Some c"
    and syn: "\<And>k. P (synthetic_packet env spec k)" and live: "\<And>hdr data. P (live_packet spec hdr data)"
  shows "list_all P (cap_state c)"
  using StreamCapture_loops [OF run]
proof (elim disjE exE)
  fix st n
  assume "synthetic_loop fuel env spec collect 0 0 [] = Some (st, n, cap_state c)"
  from synthetic_loop_packets [where P = P, OF syn this] show ?thesis by simp
next
  fix h r h1
  assume "live_loop fuel L env spec collect 0 0 h (datalink_of L h) [] = Some (r, h1, cap_state c)"
  from live_loop_packets [where P = P, OF live this] show ?thesis by simp
qed simp

lemma StreamCapture_within:
  assumes run: "StreamCapture fuel L env spec (Some collect) True dl [] = Some c"
  shows "\<exists>n. within (packet_limit spec) n (cap_state c)"
proof -
  have start: "within l 0 []" for l by (simp add: within_def)
  have lim: "within (synthetic_limit spec) n p \<Longrightarrow> within (packet_limit spec) n p" for n p
    by (auto simp: within_def synthetic_limit_def split: if_splits)
  show ?thesis
    using StreamCapture_loops [OF run]
  proof (elim disjE exE)
    fix st n
    assume "synthetic_loop fuel env spec collect 0 0 [] = Some (st, n, cap_state c)"
    from synthetic_loop_within [OF this start] show ?thesis using lim by blast
  next
    fix h r h1
    assume "live_loop fuel L env spec collect 0 0 h (datalink_of L h) [] = Some (r, h1, cap_state c)"
    from live_loop_within [OF this start] show ?thesis .
  qed (use start in auto)
qed

text \<open>
  C21. What a collected capture holds: never more packets than the limit (when one is set), and no
  packet with more bytes than the trim length (when one is set), from the synthetic source or from
  any library, whether the capture ended well or with an error. A drawn length is an \<open>int\<close>.
\<close>

theorem capture_bounds:
  assumes "GenerateCapture fuel L env spec True = Some (st, pkts, stats)" and "\<forall>k. len_draw env k < 2 ^ 31"
  shows "(packet_limit spec \<noteq> 0 \<longrightarrow> length pkts \<le> unat (packet_limit spec)) \<and>
         (payload_trim_bytes spec \<noteq> 0 \<longrightarrow>
            (\<forall>p \<in> set pkts. length (pkt_data p) \<le> unat (payload_trim_bytes spec)))"
proof -
  obtain c where c: "StreamCapture fuel L (env\<lparr>stop_fn := None\<rparr>) spec (Some collect) True DLT_EN10MB [] = Some c"
    and pkts: "pkts = cap_state c"
    using assms(1) by (auto simp: GenerateCapture_def split: option.splits)
  have "len_draw (env\<lparr>stop_fn := None\<rparr>) k < 2 ^ 32" for k using assms(2) [rule_format, of k] by simp
  then have "list_all (trimmed spec) pkts"
    using StreamCapture_packets [OF c synthetic_packet_trimmed live_packet_trimmed] pkts by blast
  moreover obtain n where "within (packet_limit spec) n pkts" using StreamCapture_within [OF c] pkts by blast
  ultimately show ?thesis by (auto simp: within_def trimmed_def word_le_nat_alt list_all_iff)
qed

theorem capture_bounds_witness:
  "\<exists>st pkts stats. GenerateCapture 4 no_pcap quiet_env three_packets True = Some (st, pkts, stats) \<and>
     length pkts \<le> 3 \<and> (\<forall>p \<in> set pkts. length (pkt_data p) \<le> 4)"
proof -
  have "quiet_env\<lparr>stop_fn := None\<rparr> = quiet_env" by (simp add: quiet_env_def)
  moreover have "\<exists>st n pkts. synthetic_loop 4 quiet_env three_packets collect 0 0 [] = Some (st, n, pkts)"
    using synthetic_loop_counts [of quiet_env collect three_packets 0 3 "[]"]
    by (simp add: three_packets_setup synthetic_limit_def del: synthetic_loop.simps)
  ultimately obtain st pkts stats where g: "GenerateCapture 4 no_pcap quiet_env three_packets True = Some (st, pkts, stats)"
    by (auto simp: GenerateCapture_def StreamCapture_def GenerateSynthetic_def three_packets_setup Let_def
        simp del: synthetic_loop.simps)
  have "\<forall>k. len_draw quiet_env k < 2 ^ 31" by (simp add: three_packets_setup)
  from capture_bounds [OF g this] g show ?thesis by (auto simp: three_packets_setup)
qed

text \<open>
  A consumer that accepts every packet sees what \<open>collect\<close> collects: the same capture, run with
  \<open>collect\<close>, gives the packets it has consumed.
\<close>

fun accepted :: "(int \<Rightarrow> PcapPacket \<Rightarrow> 's \<Rightarrow> Status \<times> 's) \<Rightarrow> int \<Rightarrow> PcapPacket list \<Rightarrow> 's \<Rightarrow> 's option" where
  "accepted f dl [] s = Some s"
| "accepted f dl (p # ps) s = (case f dl p s of (st, s1) \<Rightarrow> if status_ok st then accepted f dl ps s1 else None)"

lemma synthetic_loop_collect:
  "synthetic_loop n env spec f k produced s = Some (st, m, s1) \<Longrightarrow> status_ok st \<Longrightarrow>
   \<exists>new. synthetic_loop n env spec collect k produced pkts = Some (st, m, pkts @ new) \<and>
         accepted f DLT_EN10MB new s = Some s1"
proof (induction n arbitrary: k produced s pkts)
  case (Suc n)
  let ?p = "synthetic_packet env spec k"
  obtain st2 s2 where f: "f DLT_EN10MB ?p s = (st2, s2)" by fastforce
  show ?case
  proof (cases "synthetic_limit spec \<noteq> 0 \<and> produced \<ge> synthetic_limit spec \<or>
      ExtractDuration spec \<noteq> 0 \<and> clock env (Suc k) - clock env 0 \<ge> ExtractDuration spec")
    case True
    with Suc.prems show ?thesis by (intro exI [of _ "[]"]) (auto split: if_splits)
  next
    case False
    with Suc.prems f have ok: "status_ok st2" "\<not> should_stop env k"
      and rest: "synthetic_loop n env spec f (Suc k) (produced + 1) s2 = Some (st, m, s1)"
      by (auto split: if_splits)
    from Suc.IH [OF rest Suc.prems(2), of "pkts @ [?p]"] obtain new
      where "synthetic_loop n env spec collect (Suc k) (produced + 1) (pkts @ [?p]) = Some (st, m, (pkts @ [?p]) @ new)"
        "accepted f DLT_EN10MB new s2 = Some s1" by blast
    with f ok False show ?thesis
      by (intro exI [of _ "?p # new"]) (auto simp: collect_def [of DLT_EN10MB ?p pkts])
  qed
qed simp

lemma live_loop_collect:
  "live_loop n L env spec f k captured h dl s = Some (Inr m, h1, s1) \<Longrightarrow>
   \<exists>new. live_loop n L env spec collect k captured h dl pkts = Some (Inr m, h1, pkts @ new) \<and>
         accepted f dl new s = Some s1"
proof (induction n arbitrary: k captured h s pkts)
  case (Suc n)
  obtain x h2 where x: "next_ex L h = (x, h2)" by fastforce
  show ?case
  proof (cases "packet_limit spec \<noteq> 0 \<and> captured \<ge> packet_limit spec \<or>
      ExtractDuration spec \<noteq> 0 \<and> clock env (Suc k) \<ge> clock env 0 + ExtractDuration spec")
    case True
    with Suc.prems show ?thesis by (intro exI [of _ "[]"]) (auto split: if_splits)
  next
    case go: False
    show ?thesis
    proof (cases x)
      case (NextPacket hdr data)
      let ?p = "live_packet spec hdr data"
      obtain st2 s2 where f: "f dl ?p s = (st2, s2)" by fastforce
      from go Suc.prems f x NextPacket have ok: "status_ok st2" "\<not> should_stop env k"
        and rest: "live_loop n L env spec f (Suc k) (captured + 1) h2 dl s2 = Some (Inr m, h1, s1)"
        by (auto split: if_splits)
      from Suc.IH [OF rest, of "pkts @ [?p]"] obtain new
        where "live_loop n L env spec collect (Suc k) (captured + 1) h2 dl (pkts @ [?p]) = Some (Inr m, h1, (pkts @ [?p]) @ new)"
          "accepted f dl new s2 = Some s1" by blast
      with f ok go x NextPacket show ?thesis
        by (intro exI [of _ "?p # new"]) (auto simp: collect_def [of dl ?p pkts])
    next
      case NextTimeout
      with go Suc.prems x have "live_loop n L env spec f (Suc k) captured h2 dl s = Some (Inr m, h1, s1)"
        by (auto split: if_splits)
      from Suc.IH [OF this, of pkts] go Suc.prems x NextTimeout show ?thesis by (auto split: if_splits)
    next
      case NextEof
      with go Suc.prems x show ?thesis by (intro exI [of _ "[]"]) (auto split: if_splits)
    qed (use go Suc.prems x in \<open>auto split: if_splits\<close>)
  qed
qed simp

lemma live_loop_error:
  "live_loop n L env spec f k captured h dl s = Some (Inl st, h1, s1) \<Longrightarrow> \<not> status_ok st"
proof (induction n arbitrary: k captured h s)
  case (Suc n)
  obtain x h2 where "next_ex L h = (x, h2)" by fastforce
  with Suc show ?case by (cases x) (auto split: if_splits prod.splits)
qed simp

lemma StreamCapture_collect:
  assumes run: "StreamCapture fuel L env spec (Some f) True dl s = Some c" and ok: "status_ok (cap_status c)"
  shows "\<exists>pkts. StreamCapture fuel L env spec (Some collect) True dl [] =
            Some \<lparr>cap_status = cap_status c, cap_stats = cap_stats c, cap_datalink = cap_datalink c,
                  cap_state = pkts, cap_events = cap_events c\<rparr> \<and>
            accepted f (cap_datalink c) pkts s = Some (cap_state c)"
proof (cases "if_name spec = []")
  case True
  with run obtain st m s1 where l: "synthetic_loop fuel env spec f 0 0 s = Some (st, m, s1)"
    by (auto simp: StreamCapture_def GenerateSynthetic_def Let_def split: option.splits)
  with run True ok have "status_ok st" by (auto simp: StreamCapture_def GenerateSynthetic_def Let_def)
  from synthetic_loop_collect [OF l this, of "[]"] l run True show ?thesis
    by (auto simp: StreamCapture_def GenerateSynthetic_def Let_def)
next
  case False
  then obtain h where h: "open_live L (if_name spec) (live_snaplen spec) (if promisc spec then 1 else 0) 1000 = Inr h"
    using run ok by (cases "open_live L (if_name spec) (live_snaplen spec) (if promisc spec then 1 else 0) 1000")
      (auto simp: StreamCapture_def Let_def)
  obtain r evs where r: "apply_filter L spec (apply_direction L spec h) = (r, evs)" by fastforce
  have tr: "\<And>st. r = Inl st \<Longrightarrow> \<not> status_ok st"
    using r by (auto simp: apply_filter_def split: PcapFilter.splits sum.splits if_splits)
  from run ok False h r tr obtain h1 where h1: "r = Inr h1" by (cases r) (auto simp: StreamCapture_def Let_def)
  obtain x h2 s1 where l: "live_loop fuel L env spec f 0 0 h1 (datalink_of L h1) s = Some (x, h2, s1)"
    using run False h r h1 by (auto simp: StreamCapture_def Let_def split: option.splits)
  have "\<And>st. x = Inl st \<Longrightarrow> \<not> status_ok st" using live_loop_error l by metis
  with run False h r h1 l ok obtain m where m: "x = Inr m"
    by (cases x) (auto simp: StreamCapture_def Let_def)
  from live_loop_collect [OF l [unfolded m], of "[]"] l m run False h r h1 show ?thesis
    by (auto simp: StreamCapture_def Let_def)
qed

end
