(* ===== verification/Pcap_File.thy ===== *)
theory Pcap_File
  imports Pcap_Ops Zurg_Fs
begin

text \<open>
  The capture file the agent writes (\<open>WriteGlobalHeader\<close> and \<open>WriteRecord\<close> of
  \<open>standalone/source/agent/tasks/pcap_task.cpp\<close>): the structures as their bytes on a
  little-endian machine, and a reader of the pcap file format that gets the packets back.
\<close>

section \<open>Little-endian integers\<close>

fun le_bytes :: "nat \<Rightarrow> nat \<Rightarrow> string" where
  "le_bytes 0 v = []"
| "le_bytes (Suc n) v = char_of (v mod 256) # le_bytes n (v div 256)"

fun le_value :: "string \<Rightarrow> nat" where
  "le_value [] = 0"
| "le_value (c # cs) = of_char c + 256 * le_value cs"

lemma length_le_bytes [simp]: "length (le_bytes n v) = n"
  by (induction n arbitrary: v) auto

lemma le_value_le_bytes: "le_value (le_bytes n v) = v mod 256 ^ n"
proof (induction n arbitrary: v)
  case (Suc n)
  then show ?case by (simp add: mod_mult2_eq)
qed simp

lemma le_value_u32 [simp]: "le_value (le_bytes 4 (unat (w :: u32))) = unat w"
  using unsigned_less [of w, where ?'a = nat] by (simp add: le_value_le_bytes)

section \<open>Writing\<close>

definition u32_bytes :: "u32 \<Rightarrow> string" where
  "u32_bytes w = le_bytes 4 (unat w)"

definition u16_bytes :: "u16 \<Rightarrow> string" where
  "u16_bytes w = le_bytes 2 (unat w)"

text \<open>\<open>struct Header\<close>: 24 bytes without padding.\<close>

definition header_bytes :: "u32 \<Rightarrow> u32 \<Rightarrow> string" where
  "header_bytes snap network =
     u32_bytes 0xa1b2c3d4 @ u16_bytes 2 @ u16_bytes 4 @ u32_bytes 0 @ u32_bytes 0 @ u32_bytes snap @ u32_bytes network"

definition WriteGlobalHeader :: "location \<Rightarrow> u32 \<Rightarrow> u32 \<Rightarrow> fs \<Rightarrow> fs" where
  "WriteGlobalHeader out snap network F = append_data out (header_bytes snap network) F"

text \<open>\<open>struct RecordHeader\<close>: the conversions to 32 bits wrap around.\<close>

record RecordHeader =
  ts_sec :: u32
  ts_usec :: u32
  incl_len :: u32
  rec_orig_len :: u32

definition record_header :: "PcapPacket \<Rightarrow> RecordHeader" where
  "record_header pkt =
     \<lparr>ts_sec = word_of_int (seconds (pkt_ts pkt)), ts_usec = word_of_int (nanos (pkt_ts pkt) sdiv 1000),
      incl_len = word_of_nat (length (pkt_data pkt)), rec_orig_len = orig_len pkt\<rparr>"

definition record_header_bytes :: "RecordHeader \<Rightarrow> string" where
  "record_header_bytes r = u32_bytes (ts_sec r) @ u32_bytes (ts_usec r) @ u32_bytes (incl_len r) @ u32_bytes (rec_orig_len r)"

definition WriteRecord :: "location \<Rightarrow> PcapPacket \<Rightarrow> fs \<Rightarrow> fs" where
  "WriteRecord out pkt F =
     (let F1 = append_data out (record_header_bytes (record_header pkt)) F
      in if pkt_data pkt \<noteq> [] then append_data out (pkt_data pkt) F1 else F1)"

definition record_bytes :: "PcapPacket \<Rightarrow> string" where
  "record_bytes pkt = record_header_bytes (record_header pkt) @ pkt_data pkt"

definition pcap_bytes :: "u32 \<Rightarrow> u32 \<Rightarrow> PcapPacket list \<Rightarrow> string" where
  "pcap_bytes snap network pkts = header_bytes snap network @ concat (map record_bytes pkts)"

lemma length_headers [simp]:
  "length (u32_bytes w) = 4" "length (u16_bytes h) = 2"
  "length (header_bytes snap network) = 24" "length (record_header_bytes r) = 16"
  by (simp_all add: u32_bytes_def u16_bytes_def header_bytes_def record_header_bytes_def)

section \<open>Reading\<close>

definition word_at :: "string \<Rightarrow> nat \<Rightarrow> u32" where
  "word_at bs i = word_of_nat (le_value (take 4 (drop i bs)))"

definition read_header :: "string \<Rightarrow> RecordHeader" where
  "read_header bs = \<lparr>ts_sec = word_at bs 0, ts_usec = word_at bs 4, incl_len = word_at bs 8, rec_orig_len = word_at bs 12\<rparr>"

function read_records :: "string \<Rightarrow> (RecordHeader \<times> string) list option" where
  "read_records bs =
     (if bs = [] then Some []
      else if length bs < 16 then None
      else
        (let r = read_header bs; n = unat (incl_len r)
         in if length bs < 16 + n then None
            else map_option (Cons (r, take n (drop 16 bs))) (read_records (drop (16 + n) bs))))"
  by pat_completeness auto
termination
  by (relation "measure length") auto

declare read_records.simps [simp del]

text \<open>\<open>None\<close> for what is not a pcap file; else the snap length, the link type and the records.\<close>

definition read_pcap :: "string \<Rightarrow> (u32 \<times> u32 \<times> (RecordHeader \<times> string) list) option" where
  "read_pcap bs =
     (if length bs < 24 \<or> word_at bs 0 \<noteq> 0xa1b2c3d4 \<or> take 4 (drop 4 bs) \<noteq> u16_bytes 2 @ u16_bytes 4 then None
      else map_option (\<lambda>rs. (word_at bs 16, word_at bs 20, rs)) (read_records (drop 24 bs)))"

lemma word_at_here [simp]: "word_at (u32_bytes w @ s) 0 = w"
  by (simp add: word_at_def u32_bytes_def)

lemma word_at_later [simp]: "length p \<le> i \<Longrightarrow> word_at (p @ s) i = word_at s (i - length p)"
  by (simp add: word_at_def)

lemma read_header_bytes [simp]: "read_header (record_header_bytes r @ s) = r"
  by (simp add: read_header_def record_header_bytes_def)

lemma read_records_bytes:
  assumes "\<forall>p \<in> set pkts. length (pkt_data p) < 2 ^ 32"
  shows "read_records (concat (map record_bytes pkts)) = Some (map (\<lambda>p. (record_header p, pkt_data p)) pkts)"
  using assms
proof (induction pkts)
  case (Cons p pkts)
  let ?bs = "record_header_bytes (record_header p) @ pkt_data p @ concat (map record_bytes pkts)"
  have n: "unat (incl_len (record_header p)) = length (pkt_data p)"
    using Cons.prems by (simp add: record_header_def unsigned_of_nat take_bit_nat_eq_self)
  have "read_records ?bs = map_option (Cons (record_header p, pkt_data p)) (read_records (concat (map record_bytes pkts)))"
    using length_headers(4) [of "record_header p"]
    by (subst read_records.simps) (auto simp: n Let_def simp del: length_headers(4))
  with Cons show ?case by (simp add: record_bytes_def [of p])
qed (simp add: read_records.simps)

lemma read_pcap_bytes:
  assumes "\<forall>p \<in> set pkts. length (pkt_data p) < 2 ^ 32"
  shows "read_pcap (pcap_bytes snap network pkts) = Some (snap, network, map (\<lambda>p. (record_header p, pkt_data p)) pkts)"
proof -
  have "drop 24 (pcap_bytes snap network pkts) = concat (map record_bytes pkts)"
    by (simp add: pcap_bytes_def)
  moreover have "word_at (pcap_bytes snap network pkts) 0 = 0xa1b2c3d4" "word_at (pcap_bytes snap network pkts) 16 = snap"
    "word_at (pcap_bytes snap network pkts) 20 = network" "24 \<le> length (pcap_bytes snap network pkts)"
    "take 4 (drop 4 (pcap_bytes snap network pkts)) = u16_bytes 2 @ u16_bytes 4"
    by (simp_all add: pcap_bytes_def header_bytes_def)
  ultimately show ?thesis by (simp add: read_pcap_def read_records_bytes [OF assms])
qed

end
