(* ===== verification/Agent_Tasks.thy ===== *)
theory Agent_Tasks
  imports Task_Base Log_Ops Pcap_File "HOL-Library.AList"
begin

text \<open>
  What the tasks do when they run (\<open>standalone/source/agent/tasks/\<close>: \<open>ExecTask::Run\<close>,
  \<open>LogFilterTask::Run\<close>, \<open>PcapTask::Run\<close>). A task acts on its own object, on the file system and on
  its context. Other threads may set its cancel flag and stop the agent while it runs: what it reads
  of these flags is an environment, one answer for each time it asks.
\<close>

section \<open>The interfaces of the machine\<close>

datatype sa_family = AF_INET | AF_INET6 | AF_OTHER

text \<open>An entry of \<open>getifaddrs\<close>; an address comes with what \<open>getnameinfo\<close> says of it, \<open>None\<close> if it fails.\<close>

record ifaddrs =
  ifa_name :: "string option"
  ifa_up :: bool
  ifa_addr :: "(sa_family \<times> string option) option"

record InterfaceInfo =
  info_name :: string
  addresses :: "string list"

definition address_label :: "sa_family \<Rightarrow> string" where
  "address_label family = (if family = AF_INET then ''ipv4'' else ''ipv6'')"

definition add_address :: "ifaddrs \<Rightarrow> InterfaceInfo \<Rightarrow> InterfaceInfo" where
  "add_address ifa entry =
     (case ifa_addr ifa of
        None \<Rightarrow> entry
      | Some (family, host) \<Rightarrow>
          if family = AF_INET \<or> family = AF_INET6 then
            (case host of
               Some h \<Rightarrow> entry\<lparr>addresses := addresses entry @ [address_label family @ ''='' @ h]\<rparr>
             | None \<Rightarrow> entry)
          else entry)"

text \<open>One round of the loop; \<open>info\<close> is the table in the order of insertion.\<close>

definition collect_interface :: "ifaddrs \<Rightarrow> (string \<times> InterfaceInfo) list \<Rightarrow> (string \<times> InterfaceInfo) list" where
  "collect_interface ifa info =
     (case ifa_name ifa of
        None \<Rightarrow> info
      | Some n \<Rightarrow>
          if \<not> ifa_up ifa then info
          else
            (let entry = (case map_of info n of Some e \<Rightarrow> e | None \<Rightarrow> \<lparr>info_name = '''', addresses = []\<rparr>)
             in AList.update n (add_address ifa (entry\<lparr>info_name := n\<rparr>)) info))"

definition interface_line :: "InterfaceInfo \<Rightarrow> string" where
  "interface_line entry =
     ''interface '' @ info_name entry @
     (case addresses entry of
        [] \<Rightarrow> ''''
      | a # as \<Rightarrow> '' '' @ a @ concat (map (\<lambda>b. '','' @ b) as)) @ [CHR 0x0A]"

text \<open>
  \<open>getifaddrs\<close> may fail (\<open>None\<close>). The iteration over an \<open>unordered_map\<close> visits its entries in an
  order that is not specified: \<open>iteration\<close>.
\<close>

definition CollectUpInterfaces ::
  "ifaddrs list option \<Rightarrow> ((string \<times> InterfaceInfo) list \<Rightarrow> (string \<times> InterfaceInfo) list) \<Rightarrow> Status \<times> string" where
  "CollectUpInterfaces ifaddr iteration =
     (case ifaddr of
        None \<Rightarrow> (Status INTERNAL ''getifaddrs failed'', '''')
      | Some ifs \<Rightarrow>
          (let info = fold collect_interface ifs []
           in (Status_OK,
               if info = [] then ''no interfaces are up''
               else concat (map (\<lambda>(name, entry). interface_line entry) (iteration info)))))"

section \<open>Environment and result of a run\<close>

text \<open>
  \<open>exec_cancelled\<close> and \<open>exec_continue\<close> are what the exec task reads before it sends; the other flags
  are read by the capture task: when the capture asks for the \<open>k\<close>-th time whether to stop, when the
  \<open>k\<close>-th packet arrives, after a failure, and for the \<open>k\<close>-th chunk it streams. \<open>writable k\<close> is
  whether the stream is still good after the \<open>k\<close>-th record (or a final header).
\<close>

record task_env =
  interfaces :: "ifaddrs list option"
  iteration :: "(string \<times> InterfaceInfo) list \<Rightarrow> (string \<times> InterfaceInfo) list"
  exec_cancelled :: bool
  exec_continue :: bool
  random_draws :: "nat \<Rightarrow> u64"
  writable :: "nat \<Rightarrow> bool"
  capture_rounds :: capture_env
  capture_cancelled :: "nat \<Rightarrow> bool"
  capture_continue :: "nat \<Rightarrow> bool"
  packet_cancelled :: "nat \<Rightarrow> bool"
  failed_cancelled :: bool
  stream_cancelled :: "nat \<Rightarrow> bool"
  stream_continue :: "nat \<Rightarrow> bool"

definition numeric_code :: "Status \<Rightarrow> string" where
  "numeric_code st = to_string (code_number (error_code st))"

text \<open>The end of a run with an error: the state of the task and the message.\<close>

definition end_with :: "TaskState \<Rightarrow> 'c TaskContext \<Rightarrow> Task \<Rightarrow> string \<Rightarrow> string \<Rightarrow> 'c \<Rightarrow> Task \<times> 'c" where
  "end_with st ctx t code msg c = (SetState st t, SendError ctx (op_id t) code msg c)"

section \<open>The exec task\<close>

definition ExecTask_Run :: "task_env \<Rightarrow> 'c TaskContext \<Rightarrow> ExecSpec \<Rightarrow> Task \<Rightarrow> 'c \<Rightarrow> Task \<times> 'c" where
  "ExecTask_Run env ctx spec t0 c =
     (let t = SetState kRunning t0
      in if cmd spec \<noteq> '''' \<and> \<not> exec_cmd_supported (cmd spec) then
           end_with kFailed ctx t ''UNIMPLEMENTED'' ''unsupported exec command'' c
         else
           (case CollectUpInterfaces (interfaces env) (iteration env) of
              (status, out) \<Rightarrow>
                if \<not> status_ok status then end_with kFailed ctx t (numeric_code status) (error_message status) c
                else if exec_cancelled env \<or> \<not> exec_continue env then
                  end_with kCancelled ctx t ''CANCELLED'' ''operation cancelled'' c
                else
                  (let limit = unat (ex_max_output_bytes spec);
                       output = (if ex_max_output_bytes spec > 0 \<and> length out > limit then take limit out else out);
                       c1 = (if output \<noteq> '''' then SendExecData ctx (op_id t) (Stdout output) c else c)
                   in (SetState kCompleted t,
                       SendEofExec ctx (op_id t) \<lparr>exit_code = 0, exit_note = ''interfaces collected''\<rparr> c1))))"

section \<open>The log filter task\<close>

text \<open>
  \<open>Inl\<close> is an exception that leaves \<open>Run\<close>; nothing in the worker catches it. \<open>None\<close> is a run that does
  not end.
\<close>

definition LogFilterTask_Run ::
  "task_env \<Rightarrow> 'c TaskContext \<Rightarrow> LogFilterSpec \<Rightarrow> LogOptions \<Rightarrow> Task \<Rightarrow> fs \<Rightarrow> 'c \<Rightarrow> (string + Task \<times> fs \<times> 'c) option" where
  "LogFilterTask_Run env ctx spec opts t0 F c =
     (let t = SetState kRunning t0;
          consumer = (\<lambda>chunk c. (Status_OK, SendLogData ctx (op_id t) chunk c))
      in case StreamLogFilter F (random_draws env) (writable env) opts spec (Some consumer) True c of
           None \<Rightarrow> None
         | Some (Thrown what, F1, eof, c1) \<Rightarrow> Some (Inl what)
         | Some (Returned status, F1, eof, c1) \<Rightarrow>
             if status_ok status then Some (Inr (SetState kCompleted t, F1, SendEofLog ctx (op_id t) eof c1))
             else
               (case end_with kFailed ctx t (numeric_code status) (error_message status) c1 of
                  (t1, c2) \<Rightarrow> Some (Inr (t1, F1, c2))))"

section \<open>The capture task\<close>

text \<open>What the consumer of the packets keeps: the file system, whether the header is written, the packets seen.\<close>

record pcap_out =
  po_fs :: fs
  header_written :: bool
  po_packets :: nat

definition ensure_header :: "location \<Rightarrow> u32 \<Rightarrow> u32 \<Rightarrow> pcap_out \<Rightarrow> pcap_out" where
  "ensure_header out snap linktype st =
     (if header_written st then st
      else st\<lparr>po_fs := WriteGlobalHeader out snap linktype (po_fs st), header_written := True\<rparr>)"

text \<open>A failed write leaves nothing in the file that is read again.\<close>

definition pcap_consumer :: "task_env \<Rightarrow> location \<Rightarrow> u32 \<Rightarrow> int \<Rightarrow> PcapPacket \<Rightarrow> pcap_out \<Rightarrow> Status \<times> pcap_out" where
  "pcap_consumer env out snap datalink pkt st =
     (let k = po_packets st; st1 = st\<lparr>po_packets := Suc k\<rparr>
      in if packet_cancelled env k then (Status CANCELLED ''cancelled'', st1)
         else if \<not> writable env k then
           (Status INTERNAL ''failed to write pcap record'', st1\<lparr>header_written := True\<rparr>)
         else
           (let st2 = ensure_header out snap (word_of_int datalink) st1
            in (Status_OK, st2\<lparr>po_fs := WriteRecord out pkt (po_fs st2)\<rparr>)))"

definition task_snaplen :: "PcapSpec \<Rightarrow> u32" where
  "task_snaplen spec = (if snaplen spec > 0 then snaplen spec else 65535)"

definition capture_environment :: "task_env \<Rightarrow> capture_env" where
  "capture_environment env =
     (capture_rounds env)\<lparr>stop_fn := Some (\<lambda>k. capture_cancelled env k \<or> \<not> capture_continue env k)\<rparr>"

text \<open>The capture into the open temporary file, with the header an empty capture still gets.\<close>

definition pcap_capture ::
  "nat \<Rightarrow> ('h, 'p) pcap_lib \<Rightarrow> task_env \<Rightarrow> PcapSpec \<Rightarrow> location \<Rightarrow> fs \<Rightarrow> (Status \<times> PcapStats \<times> fs) option" where
  "pcap_capture fuel L env spec out F =
     (case StreamCapture fuel L (capture_environment env) spec (Some (pcap_consumer env out (task_snaplen spec))) True 1
             \<lparr>po_fs = F, header_written = False, po_packets = 0\<rparr> of
        None \<Rightarrow> None
      | Some cap \<Rightarrow>
          (let st = cap_state cap;
               st1 = (if status_ok (cap_status cap) \<and> writable env (po_packets st)
                      then ensure_header out (task_snaplen spec) (word_of_int (cap_datalink cap)) st else st)
           in Some (cap_status cap, cap_stats cap, po_fs st1)))"

definition pcap_cleanup :: "LogOptions \<Rightarrow> string \<Rightarrow> fs \<Rightarrow> fs" where
  "pcap_cleanup opts path F = (if cleanup_temp_file opts then fs_remove F path else F)"

definition PcapTask_Run ::
  "nat \<Rightarrow> ('h, 'p) pcap_lib \<Rightarrow> task_env \<Rightarrow> 'c TaskContext \<Rightarrow> PcapSpec \<Rightarrow> LogOptions \<Rightarrow> Task \<Rightarrow> fs \<Rightarrow> 'c \<Rightarrow>
   (Task \<times> fs \<times> 'c) option" where
  "PcapTask_Run fuel L env ctx spec opts t0 F c =
     (let t = SetState kRunning t0;
          stop_with = (\<lambda>st code msg F c. (case end_with st ctx t code msg c of (t1, c1) \<Rightarrow> Some (t1, F, c1)))
      in case ResolveDirectory F (temp_dir opts) of
           (Inl e, F1) \<Rightarrow> stop_with kFailed ''INTERNAL'' (errno_message e) F1 c
         | (Inr dir, F1) \<Rightarrow>
             (case CreateUniquePath F1 (random_draws env) dir (''pcap-'' @ to_string (unat (op_id t)) @ ''-'') ''.pcap'' of
                Inl what \<Rightarrow> stop_with kFailed ''INTERNAL'' what F1 c
              | Inr path \<Rightarrow>
                  (case open_out F1 path of
                     None \<Rightarrow> stop_with kFailed ''INTERNAL'' ''failed to create temp pcap file'' F1 c
                   | Some (out, F2) \<Rightarrow>
                       (case pcap_capture fuel L env spec out F2 of
                          None \<Rightarrow> None
                        | Some (status, stats, F3) \<Rightarrow>
                            if \<not> status_ok status then
                              stop_with (if error_code status = CANCELLED \<or> failed_cancelled env then kCancelled else kFailed)
                                (numeric_code status) (error_message status) (pcap_cleanup opts path F3) c
                            else
                              (case StreamFile F3 path (if chunk_size opts = 0 then 64 * 1024 else chunk_size opts)
                                      (Some (\<lambda>k. stream_cancelled env k \<or> \<not> stream_continue env k))
                                      (\<lambda>off d c. (Status_OK, SendLogData ctx (op_id t) \<lparr>chunk_offset = off, chunk_data = d\<rparr> c)) c of
                                 (stream_status, c1) \<Rightarrow>
                                   let F4 = pcap_cleanup opts path F3
                                   in if \<not> status_ok stream_status then
                                        (if error_code stream_status = CANCELLED
                                         then stop_with kCancelled ''CANCELLED'' (error_message stream_status) F4 c1
                                         else stop_with kFailed (numeric_code stream_status) (error_message stream_status) F4 c1)
                                      else Some (SetState kCompleted t, F4, SendEofPcap ctx (op_id t) stats c1))))))"

section \<open>The virtual call\<close>

definition Task_Run ::
  "nat \<Rightarrow> ('h, 'p) pcap_lib \<Rightarrow> task_env \<Rightarrow> 'c TaskContext \<Rightarrow> Task \<Rightarrow> fs \<Rightarrow> 'c \<Rightarrow> (string + Task \<times> fs \<times> 'c) option" where
  "Task_Run fuel L env ctx t F c =
     (case body t of
        LogFilterTask spec opts \<Rightarrow> LogFilterTask_Run env ctx spec opts t F c
      | PcapTask spec opts \<Rightarrow> map_option Inr (PcapTask_Run fuel L env ctx spec opts t F c)
      | ExecTask spec \<Rightarrow> (case ExecTask_Run env ctx spec t c of (t1, c1) \<Rightarrow> Some (Inr (t1, F, c1))))"

end
