(* ===== verification/Task_Properties.thy ===== *)
theory Task_Properties
  imports Agent_Tasks Callback_Client "HOL-Library.Multiset"
begin

text \<open>
  Properties of running tasks: what they send, for any context that keeps the laws of
  \<open>task_context\<close>, and in particular for the callback client.
\<close>

section \<open>The shape of the output\<close>

text \<open>Data for its own operation, then one trailer exactly if the task ends as completed, else one error.\<close>

definition run_report :: "u32 \<Rightarrow> TaskState \<Rightarrow> AgentToServer list \<Rightarrow> bool" where
  "run_report i st ms \<longleftrightarrow>
     well_formed_output i ms \<and> (st = kCompleted \<longleftrightarrow> (\<exists>tr. last ms = Eof i tr)) \<and>
     (st = kCompleted \<or> st = kFailed \<or> st = kCancelled)"

lemma run_report_error:
  "\<forall>m \<in> set ds. is_data_for i m \<Longrightarrow> st = kFailed \<or> st = kCancelled \<Longrightarrow> run_report i st (ds @ [Error i code msg])"
  by (auto simp: run_report_def intro: well_formed_outputI)

lemma run_report_eof: "\<forall>m \<in> set ds. is_data_for i m \<Longrightarrow> run_report i kCompleted (ds @ [Eof i tr])"
  by (auto simp: run_report_def intro: well_formed_outputI)

definition chunk_msg :: "u32 \<Rightarrow> int \<times> string \<Rightarrow> AgentToServer" where
  "chunk_msg i ch = Data i (LogChunkP \<lparr>chunk_offset = fst ch, chunk_data = snd ch\<rparr>)"

lemma chunk_msgs_data: "\<forall>m \<in> set (map (chunk_msg i) cs). is_data_for i m"
  by (auto simp: chunk_msg_def)

text \<open>The callback that turns a piece of a file into a data message.\<close>

definition chunk_sender :: "'c TaskContext \<Rightarrow> u32 \<Rightarrow> int \<Rightarrow> string \<Rightarrow> 'c \<Rightarrow> Status \<times> 'c" where
  "chunk_sender ctx i off d c = (Status_OK, SendLogData ctx i \<lparr>chunk_offset = off, chunk_data = d\<rparr> c)"

text \<open>
  The temporary file of a capture: \<open>G\<close> is the file system with the directory, \<open>F2\<close> with the empty file
  at \<open>out\<close>, which \<open>path\<close> names.
\<close>

definition pcap_temp :: "fs \<Rightarrow> task_env \<Rightarrow> LogOptions \<Rightarrow> u32 \<Rightarrow> fs \<Rightarrow> string \<Rightarrow> location \<Rightarrow> fs \<Rightarrow> bool" where
  "pcap_temp F env opts i G path out F2 \<longleftrightarrow>
     (\<exists>dir. ResolveDirectory F (temp_dir opts) = (Inr dir, G) \<and>
        CreateUniquePath G (random_draws env) dir (''pcap-'' @ to_string (unat i) @ ''-'') ''.pcap'' = Inr path \<and>
        open_out G path = Some (out, F2))"

text \<open>
  The ways a capture task can end: without a file, with a failed capture, or after streaming with an
  error or a trailer.
\<close>

inductive pcap_end :: "nat \<Rightarrow> ('h, 'p) pcap_lib \<Rightarrow> task_env \<Rightarrow> 'c TaskContext \<Rightarrow> PcapSpec \<Rightarrow> LogOptions \<Rightarrow> Task \<Rightarrow> fs \<Rightarrow> 'c \<Rightarrow>
    TaskState \<Rightarrow> fs \<Rightarrow> 'c \<Rightarrow> bool" for fuel L env ctx spec opts t F c where
  no_file: "G = snd (ResolveDirectory F (temp_dir opts)) \<Longrightarrow>
    pcap_end fuel L env ctx spec opts t F c kFailed G (SendError ctx (op_id t) code msg c)"
| no_capture: "pcap_temp F env opts (op_id t) G path out F2 \<Longrightarrow>
    pcap_capture fuel L env spec out F2 = Some (status, stats, F3) \<Longrightarrow> \<not> status_ok status \<Longrightarrow>
    st = kFailed \<or> st = kCancelled \<Longrightarrow>
    pcap_end fuel L env ctx spec opts t F c st (pcap_cleanup opts path F3) (SendError ctx (op_id t) code msg c)"
| broken: "pcap_temp F env opts (op_id t) G path out F2 \<Longrightarrow>
    pcap_capture fuel L env spec out F2 = Some (status, stats, F3) \<Longrightarrow> status_ok status \<Longrightarrow>
    StreamFile F3 path n stop (chunk_sender ctx (op_id t)) c = (status2, c2) \<Longrightarrow>
    st = kFailed \<or> st = kCancelled \<Longrightarrow>
    pcap_end fuel L env ctx spec opts t F c st (pcap_cleanup opts path F3) (SendError ctx (op_id t) code msg c2)"
| finished: "pcap_temp F env opts (op_id t) G path out F2 \<Longrightarrow>
    pcap_capture fuel L env spec out F2 = Some (status, stats, F3) \<Longrightarrow> status_ok status \<Longrightarrow>
    StreamFile F3 path n stop (chunk_sender ctx (op_id t)) c = (status2, c2) \<Longrightarrow> status_ok status2 \<Longrightarrow>
    pcap_end fuel L env ctx spec opts t F c kCompleted (pcap_cleanup opts path F3) (SendEofPcap ctx (op_id t) stats c2)"

lemma PcapTask_Run_end:
  assumes "PcapTask_Run fuel L env ctx spec opts t F c = Some (t1, F1, c1)"
  shows "pcap_end fuel L env ctx spec opts t F c (task_state t1) F1 c1"
proof -
  obtain rd G where rd: "ResolveDirectory F (temp_dir opts) = (rd, G)" by fastforce
  note run = assms [unfolded PcapTask_Run_def Let_def end_with_def rd SetState_frame]
  have G: "G = snd (ResolveDirectory F (temp_dir opts))" by (simp add: rd)
  show ?thesis
  proof (cases rd)
    case (Inl e)
    then show ?thesis using run by (auto simp: G intro: no_file)
  next
    case dir: (Inr dir)
    let ?path = "CreateUniquePath G (random_draws env) dir (''pcap-'' @ to_string (unat (op_id t)) @ ''-'') ''.pcap''"
    show ?thesis
    proof (cases ?path)
      case (Inl e)
      then show ?thesis using run dir by (auto simp: G intro: no_file)
    next
      case path: (Inr path)
      show ?thesis
      proof (cases "open_out G path")
        case None
        then show ?thesis using run dir path by (auto simp: G intro: no_file)
      next
        case out: (Some x)
        obtain loc F2 where x: "x = (loc, F2)" by fastforce
        have tmp: "pcap_temp F env opts (op_id t) G path loc F2" using rd dir path out x by (simp add: pcap_temp_def)
        obtain status stats F3 where cap: "pcap_capture fuel L env spec loc F2 = Some (status, stats, F3)"
          using run dir path out x by (auto split: option.splits)
        obtain status2 c2 where st: "StreamFile F3 path (if chunk_size opts = 0 then 64 * 1024 else chunk_size opts)
              (Some (\<lambda>k. stream_cancelled env k \<or> \<not> stream_continue env k)) (chunk_sender ctx (op_id t)) c = (status2, c2)"
          by fastforce
        show ?thesis
          using run dir path out x cap st [unfolded chunk_sender_def [abs_def]]
          by (auto intro: no_capture [OF tmp cap] broken [OF tmp cap _ st] finished [OF tmp cap _ st] split: if_splits)
      qed
    qed
  qed
qed

lemma StreamLogFilter_state:
  assumes "StreamLogFilter F draws write_ok opts spec (Some consumer) has_eof s = Some (r, F1, eof, s1)"
  shows "s1 = s \<or> (\<exists>G path. s1 = snd (StreamFile G path (chunk_size opts) None
            (\<lambda>off d. consumer \<lparr>chunk_offset = off, chunk_data = d\<rparr>) s))"
proof -
  obtain res F2 m where f: "res = FilterLogsToTemp F draws write_ok (the (MakeRoot F (log_root opts))) opts spec
      (the (EnumerateCandidates (the (ResolvePath F (the (MakeRoot F (log_root opts))) (base_path opts)))
        (include_rotations opts) (rotation_scan_depth opts))) (Some empty_metrics)" by blast
  obtain o1 G m where g: "res = (o1, G, m)" by (metis prod_cases3)
  have "s1 = s \<or> (\<exists>status. o1 = Returned status \<and> s1 = snd (snd (StreamFilteredFile G opts consumer (the m) s)))"
    using assms f g
    by (auto simp: StreamLogFilter_def Let_def split: if_splits option.splits outcome.splits prod.splits)
  moreover have "snd (snd (StreamFilteredFile G opts consumer (the m) s)) =
      snd (StreamFile G (m_temp_path (the m)) (chunk_size opts) None (\<lambda>off d. consumer \<lparr>chunk_offset = off, chunk_data = d\<rparr>) s)"
    by (simp add: StreamFilteredFile_def split: prod.split)
  ultimately show ?thesis by blast
qed

context task_context
begin

lemma sent_end_with: "sent (snd (end_with st ctx t code msg c)) = sent c @ [Error (op_id t) code msg]"
  by (simp add: end_with_def error_msg)

lemma sent_feed:
  "sent (feed (\<lambda>off d c. (Status_OK, SendLogData ctx i \<lparr>chunk_offset = off, chunk_data = d\<rparr> c)) cs c) =
   sent c @ map (chunk_msg i) cs"
  by (induction cs arbitrary: c) (auto simp: feed_def log_data chunk_msg_def)

lemma sent_StreamFile:
  "\<exists>cs. sent (snd (StreamFile F path n stop
          (\<lambda>off d c. (Status_OK, SendLogData ctx i \<lparr>chunk_offset = off, chunk_data = d\<rparr> c)) c)) =
        sent c @ map (chunk_msg i) cs"
proof (cases "open_in F path")
  case None
  then show ?thesis by (auto simp: StreamFile_def intro: exI [of _ "[]"])
next
  case (Some content)
  let ?n = "if n = 0 then 64 * 1024 else n" and ?cb = "\<lambda>off d c. (Status_OK, SendLogData ctx i \<lparr>chunk_offset = off, chunk_data = d\<rparr> c)"
  have "0 < ?n" by simp
  from stream_loop_feeds [OF this, of 0 content stop 0 ?cb c] obtain m
    where "snd (stream_loop ?n stop 0 0 content ?cb c) = feed ?cb (take m (file_chunks ?n 0 content)) c" by blast
  with Some have "snd (StreamFile F path n stop ?cb c) = feed ?cb (take m (file_chunks ?n 0 content)) c"
    by (simp add: StreamFile_def)
  then show ?thesis using sent_feed by metis
qed

lemma ExecTask_report:
  assumes "ExecTask_Run env ctx spec t c = (t1, c1)"
  shows "\<exists>ms. sent c1 = sent c @ ms \<and> run_report (op_id t) (task_state t1) ms"
  using assms run_report_error [of "[]" "op_id t"] run_report_eof [of "[]" "op_id t"]
    run_report_eof [of "[Data (op_id t) (ExecChunkP x)]" "op_id t" for x]
  by (auto simp: ExecTask_Run_def end_with_def Let_def error_msg exec_data exec_eof split: if_splits prod.splits)

lemma LogFilterTask_report:
  assumes "LogFilterTask_Run env ctx spec opts t F c = Some (Inr (t1, F1, c1))"
  shows "\<exists>ms. sent c1 = sent c @ ms \<and> run_report (op_id t) (task_state t1) ms"
proof -
  let ?consumer = "\<lambda>chunk c. (Status_OK, SendLogData ctx (op_id t) chunk c)"
  obtain status F2 eof c2 where r:
      "StreamLogFilter F (random_draws env) (writable env) opts spec (Some ?consumer) True c = Some (Returned status, F2, eof, c2)"
    and e: "if status_ok status then t1 = SetState kCompleted (SetState kRunning t) \<and> c1 = SendEofLog ctx (op_id t) eof c2
      else (t1, c1) = end_with kFailed ctx (SetState kRunning t) (numeric_code status) (error_message status) c2"
    using assms by (auto simp: LogFilterTask_Run_def Let_def split: option.splits outcome.splits if_splits prod.splits)
  obtain cs where "sent c2 = sent c @ map (chunk_msg (op_id t)) cs"
    using StreamLogFilter_state [OF r] sent_StreamFile by (metis append_Nil2 list.map_disc_iff)
  with e show ?thesis
    using run_report_eof [OF chunk_msgs_data] run_report_error [OF chunk_msgs_data]
    by (auto simp: end_with_def log_eof error_msg split: if_splits)
qed

lemma sent_chunks:
  "StreamFile G path n stop (chunk_sender ctx i) c = (status, c2) \<Longrightarrow> \<exists>cs. sent c2 = sent c @ map (chunk_msg i) cs"
  using sent_StreamFile [of G path n stop i c] unfolding chunk_sender_def [abs_def] by simp

lemma PcapTask_report:
  assumes "PcapTask_Run fuel L env ctx spec opts t F c = Some (t1, F1, c1)"
  shows "\<exists>ms. sent c1 = sent c @ ms \<and> run_report (op_id t) (task_state t1) ms"
  using PcapTask_Run_end [OF assms]
proof cases
  case (broken G path out F2 status stats F3 n stop status2 c2)
  then show ?thesis
    using sent_chunks [OF broken(6)] run_report_error [OF chunk_msgs_data] by (auto simp: error_msg)
next
  case (finished G path out F2 status stats F3 n stop status2 c2)
  then show ?thesis using sent_chunks [OF finished(7)] run_report_eof [OF chunk_msgs_data] by (auto simp: pcap_eof)
qed (use run_report_error [of "[]"] in \<open>auto simp: error_msg\<close>)

lemma Task_report:
  assumes "Task_Run fuel L env ctx t F c = Some (Inr (t1, F1, c1))"
  shows "\<exists>ms. sent c1 = sent c @ ms \<and> run_report (op_id t) (task_state t1) ms"
  using assms ExecTask_report LogFilterTask_report PcapTask_report
  by (auto simp: Task_Run_def split: task_body.splits prod.splits)

end

text \<open>
  C11. Every run reports once, whatever it does and however it ends: a task that returns has sent the
  client data messages for its own operation and then exactly one more message, the trailer if the
  task ended as completed and an error if it failed or was cancelled. This holds for all three kinds
  of task, any library, file system, environment and fuel.
\<close>

theorem task_reports_once:
  assumes "Task_Run fuel L env client_context t F c = Some (Inr (t1, F1, c1))"
  shows "\<exists>ms. enqueued c1 = enqueued c @ ms \<and> run_report (op_id t) (task_state t1) ms \<and> terminals (op_id t) ms = 1"
  using client_ctx.Task_report [OF assms] well_formed_output_terminals(1) by (auto simp: run_report_def)

section \<open>The capture file\<close>

text \<open>The state of the file after a number of packets; \<open>F\<close> is the file system with the empty file.\<close>

definition file_holds :: "fs \<Rightarrow> location \<Rightarrow> string \<Rightarrow> fs \<Rightarrow> bool" where
  "file_holds F out d G \<longleftrightarrow> same_shape F G \<and> nodes G = (nodes F)(out := Some (File d))"

lemma file_holds_append: "file_holds F out d G \<Longrightarrow> file_holds F out (d @ x) (append_data out x G)"
  using append_data_nodes [of G out d x] append_data_shape [of G out x] same_shape_trans
  by (auto simp: file_holds_def)

lemma WriteRecord_holds: "file_holds F out d G \<Longrightarrow> file_holds F out (d @ record_bytes p) (WriteRecord out p G)"
  using file_holds_append [of F out d G "record_header_bytes (record_header p)"]
    file_holds_append [of F out "d @ record_header_bytes (record_header p)" _ "pkt_data p"]
  by (auto simp: WriteRecord_def record_bytes_def Let_def)

lemma ensure_header_holds:
  "file_holds F out d (po_fs st) \<Longrightarrow>
   file_holds F out (d @ (if header_written st then [] else header_bytes snap net)) (po_fs (ensure_header out snap net st)) \<and>
   header_written (ensure_header out snap net st) \<and> po_packets (ensure_header out snap net st) = po_packets st"
  using file_holds_append [of F out d "po_fs st" "header_bytes snap net"]
  by (auto simp: ensure_header_def WriteGlobalHeader_def)

lemma pcap_consumer_holds:
  assumes "accepted (pcap_consumer env out snap) dl pkts st = Some st1" and "file_holds F out d (po_fs st)"
  shows "file_holds F out (d @ (if header_written st \<or> pkts = [] then [] else header_bytes snap (word_of_int dl)) @
           concat (map record_bytes pkts)) (po_fs st1) \<and>
         (header_written st1 \<longleftrightarrow> header_written st \<or> pkts \<noteq> [])"
  using assms
proof (induction pkts arbitrary: st d)
  case (Cons p pkts)
  let ?st = "st\<lparr>po_packets := Suc (po_packets st)\<rparr>"
  let ?h = "if header_written st then [] else header_bytes snap (word_of_int dl)"
  let ?st2 = "ensure_header out snap (word_of_int dl) ?st"
  from Cons.prems(1) have rest: "accepted (pcap_consumer env out snap) dl pkts
      (?st2\<lparr>po_fs := WriteRecord out p (po_fs ?st2)\<rparr>) = Some st1"
    by (auto simp: pcap_consumer_def [of env out snap dl p st] Let_def split: if_splits)
  have "file_holds F out d (po_fs ?st)" using Cons.prems(2) by simp
  from ensure_header_holds [OF this, of snap "word_of_int dl"]
  have h: "file_holds F out (d @ ?h) (po_fs ?st2)" "header_written ?st2" by simp_all
  from WriteRecord_holds [OF h(1)]
  have "file_holds F out ((d @ ?h) @ record_bytes p) (po_fs (?st2\<lparr>po_fs := WriteRecord out p (po_fs ?st2)\<rparr>))" by simp
  from Cons.IH [OF rest this] h(2) show ?case by auto
qed simp

text \<open>After a capture that went well the file is the pcap file of the packets captured.\<close>

lemma pcap_capture_holds:
  assumes run: "pcap_capture fuel L env spec out F = Some (status, stats, G)" and "status_ok status"
    and "\<And>k. writable env k" and "nodes F out = Some (File [])"
  shows "\<exists>cap. StreamCapture fuel L (capture_environment env) spec (Some collect) True 1 [] = Some cap \<and>
            cap_status cap = status \<and> cap_stats cap = stats \<and>
            file_holds F out (pcap_bytes (task_snaplen spec) (word_of_int (cap_datalink cap)) (cap_state cap)) G"
proof -
  let ?st = "\<lparr>po_fs = F, header_written = False, po_packets = 0\<rparr>"
  obtain c where c: "StreamCapture fuel L (capture_environment env) spec
      (Some (pcap_consumer env out (task_snaplen spec))) True 1 ?st = Some c"
    and s: "status = cap_status c" "stats = cap_stats c"
    and G: "G = po_fs (ensure_header out (task_snaplen spec) (word_of_int (cap_datalink c)) (cap_state c))"
    using run assms(2,3) by (auto simp: pcap_capture_def Let_def split: option.splits)
  obtain pkts where p: "StreamCapture fuel L (capture_environment env) spec (Some collect) True 1 [] =
        Some \<lparr>cap_status = cap_status c, cap_stats = cap_stats c, cap_datalink = cap_datalink c,
              cap_state = pkts, cap_events = cap_events c\<rparr>"
    and acc: "accepted (pcap_consumer env out (task_snaplen spec)) (cap_datalink c) pkts ?st = Some (cap_state c)"
    using StreamCapture_collect [OF c] assms(2) s by blast
  have "file_holds F out [] (po_fs ?st)" using assms(4) by (auto simp: file_holds_def)
  from pcap_consumer_holds [OF acc this] have h:
    "file_holds F out ((if pkts = [] then [] else header_bytes (task_snaplen spec) (word_of_int (cap_datalink c))) @
       concat (map record_bytes pkts)) (po_fs (cap_state c))"
    "header_written (cap_state c) \<longleftrightarrow> pkts \<noteq> []" by auto
  from ensure_header_holds [OF h(1), of "task_snaplen spec" "word_of_int (cap_datalink c)"] h(2)
  have "file_holds F out (pcap_bytes (task_snaplen spec) (word_of_int (cap_datalink c)) pkts) G"
    by (cases "pkts = []") (auto simp: G pcap_bytes_def)
  with p s show ?thesis by auto
qed

text \<open>However the capture ends, only the file has changed.\<close>

lemma pcap_consumer_keeps:
  "\<exists>d. file_holds F out d (po_fs st) \<Longrightarrow> \<exists>d. file_holds F out d (po_fs (snd (pcap_consumer env out snap dl p st)))"
  using ensure_header_holds [of F out _ "st\<lparr>po_packets := Suc (po_packets st)\<rparr>" snap "word_of_int dl"] WriteRecord_holds
  by (fastforce simp: pcap_consumer_def Let_def)

lemma StreamCapture_invariant:
  assumes run: "StreamCapture fuel L env spec (Some f) True dl s = Some c" and "I s"
    and step: "\<And>dl p s. I s \<Longrightarrow> I (snd (f dl p s))"
  shows "I (cap_state c)"
proof -
  have syn: "synthetic_loop n env spec f k m s = Some (st, m1, s1) \<Longrightarrow> I s \<Longrightarrow> I s1" for n k m s st m1 s1
  proof (induction n arbitrary: k m s)
    case (Suc n)
    obtain st2 s2 where f: "f DLT_EN10MB (synthetic_packet env spec k) s = (st2, s2)" by fastforce
    with step [OF Suc.prems(2), of DLT_EN10MB "synthetic_packet env spec k"] have "I s2" by simp
    with Suc.prems f Suc.IH [of "Suc k" "m + 1" s2] show ?case by (auto split: if_splits)
  qed simp
  have live: "live_loop n L env spec f k m h d s = Some (r, h1, s1) \<Longrightarrow> I s \<Longrightarrow> I s1" for n k m h d s r h1 s1
  proof (induction n arbitrary: k m h s)
    case (Suc n)
    obtain x h2 where x: "next_ex L h = (x, h2)" by fastforce
    show ?case
    proof (cases x)
      case (NextPacket hdr data)
      obtain st2 s2 where f: "f d (live_packet spec hdr data) s = (st2, s2)" by fastforce
      with step [OF Suc.prems(2), of d "live_packet spec hdr data"] have "I s2" by simp
      with Suc.prems f x NextPacket Suc.IH [of "Suc k" "m + 1" h2 s2] show ?thesis by (auto split: if_splits)
    qed (use Suc.prems x Suc.IH [of "Suc k" m h2 s] in \<open>auto split: if_splits\<close>)
  qed simp
  show ?thesis using StreamCapture_loops [OF run] assms(2) syn live by metis
qed

lemma pcap_capture_keeps:
  assumes "pcap_capture fuel L env spec out F2 = Some (status, stats, F3)" and "file_holds F out d F2"
  shows "\<exists>x. file_holds F out x F3"
proof -
  let ?I = "\<lambda>st. \<exists>d. file_holds F out d (po_fs st)"
  obtain c where c: "StreamCapture fuel L (capture_environment env) spec (Some (pcap_consumer env out (task_snaplen spec)))
      True 1 \<lparr>po_fs = F2, header_written = False, po_packets = 0\<rparr> = Some c"
    and F3: "F3 = po_fs (cap_state c) \<or>
      F3 = po_fs (ensure_header out (task_snaplen spec) (word_of_int (cap_datalink c)) (cap_state c))"
    using assms(1) by (auto simp: pcap_capture_def Let_def split: option.splits if_splits)
  have "?I (cap_state c)" by (rule StreamCapture_invariant [OF c]) (use assms(2) in \<open>auto intro: pcap_consumer_keeps\<close>)
  with F3 show ?thesis using ensure_header_holds by metis
qed

lemma pcap_tempD:
  assumes "pcap_temp F env opts i G path out F2"
  shows "fs_exists G path = Inr False" and "path \<noteq> []" and "last path \<noteq> slash" and "last path \<noteq> CHR ''.''"
    and "file_status G path = Missing out" and "F2 = G\<lparr>nodes := (nodes G)(out \<mapsto> File [])\<rparr>"
    and "file_status F2 path = Found out" and "G = snd (ResolveDirectory F (temp_dir opts))"
proof -
  from assms obtain dir where r: "ResolveDirectory F (temp_dir opts) = (Inr dir, G)"
    and c: "CreateUniquePath G (random_draws env) dir (''pcap-'' @ to_string (unat i) @ ''-'') ''.pcap'' = Inr path"
    and o: "open_out G path = Some (out, F2)" by (auto simp: pcap_temp_def)
  note u = unique_loop_spec [of G "random_draws env" 0 1000 dir "''pcap-'' @ to_string (unat i) @ ''-''" "''.pcap''" path]
  from c u show ex: "fs_exists G path = Inr False" by (simp add: CreateUniquePath_def)
  show "file_status G path = Missing out" "F2 = G\<lparr>nodes := (nodes G)(out \<mapsto> File [])\<rparr>" "file_status F2 path = Found out"
    by (rule open_out_then_read [OF o ex])+
  from c u obtain j where
    "path = candidate_path dir (''pcap-'' @ to_string (unat i) @ ''-'') ''.pcap'' (random_draws env j)"
    by (auto simp: CreateUniquePath_def)
  then show "path \<noteq> []" "last path \<noteq> slash" "last path \<noteq> CHR ''.''"
    by (auto simp: candidate_path_def path_append_def is_absolute_def slash_def)
  from r show "G = snd (ResolveDirectory F (temp_dir opts))" by simp
qed

lemma packets_short:
  assumes run: "StreamCapture fuel L env spec (Some collect) True dl [] = Some c" and "\<And>k. len_draw env k < 2 ^ 31"
  shows "\<forall>p \<in> set (cap_state c). length (pkt_data p) < 2 ^ 32"
proof -
  have "length (pkt_data (synthetic_packet env spec k)) < 2 ^ 32" for k
  proof -
    have "sint (payload_trim_bytes spec) < 2 ^ 32"
      using signed_take_bit_int_less_exp [of 31 "uint (payload_trim_bytes spec)"] by (simp add: sint_uint)
    with assms(2) [of k] show ?thesis by (auto simp: synthetic_packet_def Let_def; arith)
  qed
  moreover have "length (pkt_data (live_packet spec hdr data)) < 2 ^ 32" for hdr data
    using unsigned_less [of "caplen hdr", where ?'a = nat] unsigned_less [of "payload_trim_bytes spec", where ?'a = nat]
    by (simp add: live_packet_def Let_def min_less_iff_disj)
  ultimately show ?thesis
    using StreamCapture_packets [OF run, of "\<lambda>p. length (pkt_data p) < 2 ^ 32"] by (simp add: list_all_iff)
qed

text \<open>
  C9. What a completed capture task sends is a pcap file of what it captured: the data of its
  messages, put together, reads back as a file with the requested snap length and the link type of
  the capture, and one record for each captured packet, in order, with its time, its lengths and its
  bytes; the trailer carries the statistics. Captured is what the same capture delivers to
  \<open>GenerateCapture\<close>'s consumer. The writes to the file succeed, and a drawn length is an \<open>int\<close>.
\<close>

theorem capture_task_sends_pcap_file:
  assumes run: "PcapTask_Run fuel L env client_context spec opts t F c = Some (t1, F1, c1)"
    and "task_state t1 = kCompleted" and "\<And>k. writable env k" and "\<And>k. len_draw (capture_rounds env) k < 2 ^ 31"
  shows "\<exists>cap chunks. StreamCapture fuel L (capture_environment env) spec (Some collect) True 1 [] = Some cap \<and>
     enqueued c1 = enqueued c @ map (chunk_msg (op_id t)) chunks @ [Eof (op_id t) (PcapT (cap_stats cap))] \<and>
     read_pcap (concat (map snd chunks)) =
       Some (task_snaplen spec, word_of_int (cap_datalink cap), map (\<lambda>p. (record_header p, pkt_data p)) (cap_state cap))"
  using PcapTask_Run_end [OF run]
proof cases
  case (finished G path out F2 status stats F3 n stop status2 c2)
  note tmp = pcap_tempD [OF finished(4)]
  have n0: "nodes F2 out = Some (File [])" by (simp add: tmp(6))
  obtain cap where cap: "StreamCapture fuel L (capture_environment env) spec (Some collect) True 1 [] = Some cap"
      "cap_stats cap = stats"
    and holds: "file_holds F2 out (pcap_bytes (task_snaplen spec) (word_of_int (cap_datalink cap)) (cap_state cap)) F3"
    using pcap_capture_holds [OF finished(5,6) assms(3) n0] by blast
  let ?d = "pcap_bytes (task_snaplen spec) (word_of_int (cap_datalink cap)) (cap_state cap)"
  let ?n = "if n = 0 then 64 * 1024 else n"
  have "file_status F3 path = Found out"
    using holds file_status_shape [of F2 F3 path] tmp(7) by (simp add: file_holds_def)
  moreover have "nodes F3 out = Some (File ?d)" using holds by (simp add: file_holds_def)
  moreover have "open_in F3 path \<noteq> None" using finished(7,8) by (auto simp: StreamFile_def split: option.splits)
  ultimately have op: "open_in F3 path = Some ?d" by (auto simp: open_in_def split: if_splits)
  have n1: "0 < ?n" by simp
  have st: "stream_loop ?n stop 0 0 ?d (chunk_sender client_context (op_id t)) c = (status2, c2)"
    using finished(7) op by (simp add: StreamFile_def)
  have "status2 = Status_OK" by (rule stream_loop_ok [OF st finished(8)])
  with stream_loop_feeds [OF n1, of 0 ?d stop 0 "chunk_sender client_context (op_id t)" c] st
  have "c2 = feed (chunk_sender client_context (op_id t)) (file_chunks ?n 0 ?d) c" by auto
  then have "enqueued c2 = enqueued c @ map (chunk_msg (op_id t)) (file_chunks ?n 0 ?d)"
    using client_ctx.sent_feed [of "op_id t" "file_chunks ?n 0 ?d" c] by (simp add: chunk_sender_def [abs_def])
  moreover have "concat (map snd (file_chunks ?n 0 ?d)) = ?d" by (rule file_chunks_content [OF n1])
  moreover have "read_pcap ?d = Some (task_snaplen spec, word_of_int (cap_datalink cap),
      map (\<lambda>p. (record_header p, pkt_data p)) (cap_state cap))"
    by (rule read_pcap_bytes, rule packets_short [OF cap(1)]) (use assms(4) in \<open>simp add: capture_environment_def\<close>)
  ultimately show ?thesis using cap finished(3) by (auto simp: client_ctx.pcap_eof)
qed (use assms(2) in auto)

text \<open>
  C19. A capture leaves no file behind: with cleanup requested, a capture task that returns, however it
  ended, leaves every node of the file system as it was right after the temporary directory was made
  to exist, provided no symbolic link already carries the name drawn for the file.
\<close>

theorem capture_task_cleans_up:
  assumes run: "PcapTask_Run fuel L env ctx spec opts t F c = Some (t1, F1, c1)" and "cleanup_temp_file opts"
    and nolink: "\<And>G path out F2 l s. pcap_temp F env opts (op_id t) G path out F2 \<Longrightarrow>
                   nodes G (l @ [last (names path)]) \<noteq> Some (Symlink s)"
  shows "nodes F1 = nodes (snd (ResolveDirectory F (temp_dir opts)))"
proof -
  have clean: "nodes (pcap_cleanup opts path F3) = nodes (snd (ResolveDirectory F (temp_dir opts)))"
    if tmp: "pcap_temp F env opts (op_id t) G path out F2"
      and cap: "pcap_capture fuel L env spec out F2 = Some (status, stats, F3)" for G path out F2 status stats F3
  proof -
    note d = pcap_tempD [OF tmp]
    have "file_holds F2 out [] F2" by (simp add: file_holds_def d(6))
    from pcap_capture_keeps [OF cap this] obtain x where x: "file_holds F2 out x F3" by blast
    have "plain_path G path" using d nolink [OF tmp] by (auto simp: plain_path_def)
    moreover have "cwd F3 = cwd G" "nodes F3 = (nodes G)(out := Some (File x))"
      using x by (auto simp: file_holds_def same_shape_def d(6))
    ultimately show ?thesis
      using fs_remove_created(1) [OF _ d(5), of F3 "Some (File x)" x] assms(2) d(8) by (simp add: pcap_cleanup_def)
  qed
  from PcapTask_Run_end [OF run] show ?thesis by cases (auto intro: clean)
qed

section \<open>A concrete capture\<close>

definition capture_fs :: fs where
  "capture_fs = empty_fs\<lparr>nodes := [[''tmp''] \<mapsto> Dir]\<rparr>"

definition calm_env :: task_env where
  "calm_env = \<lparr>interfaces = Some [], iteration = id, exec_cancelled = False, exec_continue = True,
     random_draws = (\<lambda>k. 0), writable = (\<lambda>k. True), capture_rounds = quiet_env,
     capture_cancelled = (\<lambda>k. False), capture_continue = (\<lambda>k. True), packet_cancelled = (\<lambda>k. False),
     failed_cancelled = False, stream_cancelled = (\<lambda>k. False), stream_continue = (\<lambda>k. True)\<rparr>"

definition capture_opts :: LogOptions where
  "capture_opts = default_LogOptions\<lparr>temp_dir := ''/tmp''\<rparr>"

definition capture_task :: Task where
  "capture_task = make_PcapTask 7 three_packets capture_opts"

definition some_client :: callback_client where
  "some_client = new_ControlCallbackClient ''agent'' default_LogOptions default_FeatureToggles None None"

text \<open>
  A capture task without interface, deadline and cancellation completes once it has its file: with one
  round more than the packet limit it sends its trailer.
\<close>

lemma PcapTask_completes:
  assumes tmp: "pcap_temp F env opts (op_id t) G path out F2" and "may_read G out"
    and "if_name spec = []" and "ExtractDuration spec = 0"
    and n: "n = (if packet_limit spec = 0 then 10 else unat (packet_limit spec))"
    and "\<And>k. writable env k" and "\<And>k. \<not> capture_cancelled env k \<and> capture_continue env k"
    and "\<And>k. \<not> packet_cancelled env k" and "\<And>k. \<not> stream_cancelled env k \<and> stream_continue env k"
  shows "\<exists>t1 F1 c1. PcapTask_Run (Suc n) L env ctx spec opts t F c = Some (t1, F1, c1) \<and> task_state t1 = kCompleted"
proof -
  note d = pcap_tempD [OF tmp]
  let ?f = "pcap_consumer env out (task_snaplen spec)"
  let ?st = "\<lparr>po_fs = F2, header_written = False, po_packets = 0\<rparr>"
  let ?stop = "Some (\<lambda>k. stream_cancelled env k \<or> \<not> stream_continue env k)"
  let ?n = "if chunk_size opts = 0 then 64 * 1024 else chunk_size opts"
  have "fst (?f dl p s) = Status_OK" for dl p s using assms(6,8) by (simp add: pcap_consumer_def Let_def)
  moreover have "\<not> should_stop (capture_environment env) k" for k
    using assms(7) by (simp add: should_stop_def capture_environment_def)
  ultimately obtain cap where "StreamCapture (Suc n) L (capture_environment env) spec (Some ?f) True 1 ?st = Some cap"
      "cap_status cap = Status_OK"
    using StreamCapture_synthetic [of "capture_environment env" ?f spec n L 1 ?st] assms(3,4) n by auto
  then obtain stats F3 where cap: "pcap_capture (Suc n) L env spec out F2 = Some (Status_OK, stats, F3)"
    by (simp add: pcap_capture_def Let_def)
  have "file_holds F2 out [] F2" by (simp add: file_holds_def d(6))
  from pcap_capture_keeps [OF cap this] obtain x where x: "file_holds F2 out x F3" by blast
  then have "file_status F3 path = Found out" "may_read F3 out" "nodes F3 out = Some (File x)"
    using file_status_shape [of F2 F3 path] d(6,7) assms(2) by (simp_all add: file_holds_def same_shape_def)
  then have "open_in F3 path = Some x" by (simp add: open_in_def)
  moreover have "stream_loop ?n ?stop 0 0 x (chunk_sender ctx (op_id t)) c =
      (Status_OK, feed (chunk_sender ctx (op_id t)) (file_chunks ?n 0 x) c)"
    by (rule stream_loop_total) (use assms(9) in \<open>simp_all add: chunk_sender_def\<close>)
  ultimately have st: "StreamFile F3 path ?n ?stop (chunk_sender ctx (op_id t)) c =
      (Status_OK, feed (chunk_sender ctx (op_id t)) (file_chunks ?n 0 x) c)"
    by (simp add: StreamFile_def)
  from tmp cap st [unfolded chunk_sender_def [abs_def]] show ?thesis
    by (auto simp: PcapTask_Run_def pcap_temp_def Let_def end_with_def)
qed

definition capture_path :: string where
  "capture_path = ''/tmp/pcap-7-0000000000000000.pcap''"

lemma capture_fs_temp:
  "\<exists>out F2. pcap_temp capture_fs calm_env capture_opts 7 capture_fs capture_path out F2 \<and> may_read capture_fs out"
proof -
  have dir: "ResolveDirectory capture_fs ''/tmp'' = (Inr ''/tmp'', capture_fs)"
    by (simp add: ResolveDirectory_def create_directories_def path_eval capture_fs_def)
  have st: "file_status capture_fs capture_path = Missing [''tmp'', ''pcap-7-0000000000000000.pcap'']"
    by (simp add: path_eval capture_fs_def capture_path_def)
  then have ex: "fs_exists capture_fs capture_path = Inr False" by (simp add: fs_exists_def)
  have "to_string 7 = ''7''" by code_simp
  then have "CreateUniquePath capture_fs (\<lambda>k. 0) ''/tmp'' (''pcap-'' @ to_string 7 @ ''-'') ''.pcap'' = Inr capture_path"
    using ex unique_loop.simps(2) [of capture_fs "\<lambda>k. 0" 0 999 "''/tmp''" "''pcap-7-''" "''.pcap''"]
    by (simp add: CreateUniquePath_def GenerateSuffix_def hex16_0 path_append_def is_absolute_def slash_def capture_path_def)
  moreover obtain F2 where "open_out capture_fs capture_path = Some ([''tmp'', ''pcap-7-0000000000000000.pcap''], F2)"
    unfolding open_out_def st walk_result.case by (simp add: capture_fs_def empty_fs_def)
  ultimately show ?thesis
    using dir by (auto simp: pcap_temp_def capture_opts_def default_LogOptions_def calm_env_def capture_fs_def empty_fs_def)
qed

lemma capture_task_runs:
  "\<exists>t1 F1 c1. PcapTask_Run 4 no_pcap calm_env client_context three_packets capture_opts capture_task capture_fs some_client =
      Some (t1, F1, c1) \<and> task_state t1 = kCompleted"
proof -
  have "op_id capture_task = 7" by (simp add: capture_task_def make_PcapTask_def new_Task_def)
  then obtain out F2 where "pcap_temp capture_fs calm_env capture_opts (op_id capture_task) capture_fs capture_path out F2"
      "may_read capture_fs out" using capture_fs_temp by auto
  from PcapTask_completes [OF this, of three_packets 3 no_pcap client_context some_client]
  show ?thesis by (simp add: three_packets_setup) (simp add: calm_env_def)
qed

theorem task_reports_once_witness:
  "\<exists>t1 F1 c1 ms. Task_Run 4 no_pcap calm_env client_context capture_task capture_fs some_client = Some (Inr (t1, F1, c1)) \<and>
     enqueued c1 = enqueued some_client @ ms \<and> run_report 7 (task_state t1) ms"
proof -
  have t: "body capture_task = PcapTask three_packets capture_opts" "op_id capture_task = 7"
    by (simp_all add: capture_task_def make_PcapTask_def new_Task_def)
  obtain t1 F1 c1 where "Task_Run 4 no_pcap calm_env client_context capture_task capture_fs some_client = Some (Inr (t1, F1, c1))"
    using capture_task_runs by (auto simp: Task_Run_def t)
  from this task_reports_once [OF this] show ?thesis unfolding t by blast
qed

theorem capture_task_sends_pcap_file_witness:
  "\<exists>t1 F1 c1 cap chunks.
     PcapTask_Run 4 no_pcap calm_env client_context three_packets capture_opts capture_task capture_fs some_client =
       Some (t1, F1, c1) \<and>
     StreamCapture 4 no_pcap (capture_environment calm_env) three_packets (Some collect) True 1 [] = Some cap \<and>
     enqueued c1 = enqueued some_client @ map (chunk_msg 7) chunks @ [Eof 7 (PcapT (cap_stats cap))] \<and>
     read_pcap (concat (map snd chunks)) =
       Some (65535, word_of_int (cap_datalink cap), map (\<lambda>p. (record_header p, pkt_data p)) (cap_state cap))"
proof -
  obtain t1 F1 c1 where r: "PcapTask_Run 4 no_pcap calm_env client_context three_packets capture_opts capture_task capture_fs
      some_client = Some (t1, F1, c1)" "task_state t1 = kCompleted"
    using capture_task_runs by blast
  have w: "writable calm_env k" "len_draw (capture_rounds calm_env) k < 2 ^ 31" for k
    by (simp_all add: calm_env_def three_packets_setup)
  have "task_snaplen three_packets = 65535" "op_id capture_task = 7"
    by (simp_all add: task_snaplen_def three_packets_def capture_task_def make_PcapTask_def new_Task_def)
  with capture_task_sends_pcap_file [OF r w] r(1) show ?thesis by auto
qed

theorem capture_task_cleans_up_witness:
  "\<exists>t1 F1 c1. PcapTask_Run 4 no_pcap calm_env client_context three_packets capture_opts capture_task capture_fs some_client =
     Some (t1, F1, c1) \<and> nodes F1 = nodes (snd (ResolveDirectory capture_fs (temp_dir capture_opts)))"
proof -
  obtain t1 F1 c1 where r: "PcapTask_Run 4 no_pcap calm_env client_context three_packets capture_opts capture_task capture_fs
      some_client = Some (t1, F1, c1)"
    using capture_task_runs by blast
  have "temp_dir capture_opts = ''/tmp''" by (simp add: capture_opts_def)
  then have "ResolveDirectory capture_fs (temp_dir capture_opts) = (Inr ''/tmp'', capture_fs)"
    by (simp add: ResolveDirectory_def create_directories_def path_eval capture_fs_def)
  then have "pcap_temp capture_fs calm_env capture_opts i G path out F2 \<Longrightarrow> nodes G (l @ [x]) \<noteq> Some (Symlink s)"
    for i G path out F2 l x s
    by (auto simp: pcap_temp_def capture_fs_def split: if_splits)
  from capture_task_cleans_up [OF r _ this] r show ?thesis by (auto simp: capture_opts_def default_LogOptions_def)
qed

section \<open>The exec task\<close>

text \<open>The reference: the addresses of an interface are those of its entries that are up, in their order.\<close>

definition named_up :: "string \<Rightarrow> ifaddrs \<Rightarrow> bool" where
  "named_up n ifa \<longleftrightarrow> ifa_name ifa = Some n \<and> ifa_up ifa"

definition entry_addresses :: "ifaddrs \<Rightarrow> string list" where
  "entry_addresses ifa =
     (case ifa_addr ifa of
        Some (family, Some host) \<Rightarrow> if family = AF_OTHER then [] else [address_label family @ ''='' @ host]
      | _ \<Rightarrow> [])"

definition interface_info :: "ifaddrs list \<Rightarrow> string \<Rightarrow> InterfaceInfo" where
  "interface_info ifs n = \<lparr>info_name = n, addresses = concat (map entry_addresses (filter (named_up n) ifs))\<rparr>"

lemma add_address_eq: "add_address ifa e = e\<lparr>addresses := addresses e @ entry_addresses ifa\<rparr>"
proof (cases "ifa_addr ifa")
  case (Some x)
  then obtain family host where x: "ifa_addr ifa = Some (family, host)" by (metis prod.collapse)
  show ?thesis by (cases family; cases host) (simp_all add: add_address_def entry_addresses_def x)
qed (simp add: add_address_def entry_addresses_def)

lemma collect_interfaces:
  "distinct (map fst (fold collect_interface ifs [])) \<and>
   map_of (fold collect_interface ifs []) n = (if \<exists>ifa \<in> set ifs. named_up n ifa then Some (interface_info ifs n) else None)"
proof (induction ifs arbitrary: n rule: rev_induct)
  case (snoc ifa ifs)
  let ?info = "fold collect_interface ifs []"
  show ?case
  proof (cases "\<exists>m. named_up m ifa")
    case False
    then have "collect_interface ifa ?info = ?info" "\<not> named_up n ifa"
      by (auto simp: collect_interface_def named_up_def split: option.splits)
    with snoc show ?thesis by (auto simp: interface_info_def)
  next
    case True
    then obtain m where m: "named_up m ifa" by blast
    have other: "named_up n ifa \<longleftrightarrow> n = m" using m by (auto simp: named_up_def)
    have "interface_info ifs m = \<lparr>info_name = m, addresses = []\<rparr>" if "\<not> (\<exists>x \<in> set ifs. named_up m x)"
      using that by (auto simp: interface_info_def filter_empty_conv)
    then have "(case map_of ?info m of Some e \<Rightarrow> e | None \<Rightarrow> \<lparr>info_name = '''', addresses = []\<rparr>)\<lparr>info_name := m\<rparr> =
        interface_info ifs m"
      using snoc.IH [of m] by (auto simp: interface_info_def)
    moreover have "add_address ifa (interface_info ifs m) = interface_info (ifs @ [ifa]) m"
      using m by (simp add: add_address_eq interface_info_def)
    ultimately have c: "collect_interface ifa ?info = AList.update m (interface_info (ifs @ [ifa]) m) ?info"
      using m by (simp add: collect_interface_def named_up_def Let_def)
    from snoc.IH [of n] other show ?thesis
      by (auto simp: c update_conv' distinct_update interface_info_def)
  qed
qed simp

lemma collected_entries:
  assumes "mset (iter (fold collect_interface ifs [])) = mset (fold collect_interface ifs [])"
  shows "\<exists>ns. distinct ns \<and> set ns = {n. \<exists>ifa \<in> set ifs. named_up n ifa} \<and>
           iter (fold collect_interface ifs []) = map (\<lambda>n. (n, interface_info ifs n)) ns"
proof -
  let ?info = "fold collect_interface ifs []" and ?es = "iter (fold collect_interface ifs [])"
  have "mset (map fst ?es) = mset (map fst ?info)" using assms by simp
  then have d: "distinct (map fst ?es)" and s: "set ?es = set ?info"
    using collect_interfaces [of ifs] assms by (metis mset_eq_imp_distinct_iff, metis mset_eq_setD)
  have val: "e = interface_info ifs n \<and> (\<exists>ifa \<in> set ifs. named_up n ifa)" if "(n, e) \<in> set ?es" for n e
    using that s collect_interfaces [of ifs n] by (metis map_of_eq_Some_iff option.distinct(1) option.inject)
  then have "?es = map (\<lambda>n. (n, interface_info ifs n)) (map fst ?es)"
    by (intro nth_equalityI) (auto simp: set_conv_nth, metis nth_mem prod.collapse)
  moreover have "set (map fst ?es) = {n. \<exists>ifa \<in> set ifs. named_up n ifa}"
  proof (intro equalityI subsetI)
    fix n
    assume "n \<in> {n. \<exists>ifa \<in> set ifs. named_up n ifa}"
    then have "map_of ?info n = Some (interface_info ifs n)" using collect_interfaces [of ifs n] by simp
    from map_of_SomeD [OF this] s have "(n, interface_info ifs n) \<in> set ?es" by simp
    then show "n \<in> set (map fst ?es)" by force
  qed (use val in auto)
  ultimately show ?thesis using d by blast
qed

text \<open>
  C31. The exec task reports the interfaces: for a supported command that is not cancelled it sends the
  client one piece of output and the exit record and completes. The output has one line for each
  interface with an entry that is up, once, in whatever order the table is iterated, with the
  numeric addresses of all its entries in the order of the system's list; or it says that there is
  none. It is cut to the requested number of bytes if a limit is set.
\<close>

theorem exec_reports_interfaces:
  assumes "interfaces env = Some ifs" and "\<not> exec_cancelled env" and "exec_continue env"
    and "cmd spec = '''' \<or> exec_cmd_supported (cmd spec)" and "\<And>es. mset (iteration env es) = mset es"
  shows "\<exists>ns out. distinct ns \<and> set ns = {n. \<exists>ifa \<in> set ifs. named_up n ifa} \<and>
     out = (if ns = [] then ''no interfaces are up'' else concat (map (\<lambda>n. interface_line (interface_info ifs n)) ns)) \<and>
     task_state (fst (ExecTask_Run env client_context spec t c)) = kCompleted \<and>
     enqueued (snd (ExecTask_Run env client_context spec t c)) = enqueued c @
       [Data (op_id t) (ExecChunkP (Stdout (if ex_max_output_bytes spec = 0 then out else take (unat (ex_max_output_bytes spec)) out))),
        Eof (op_id t) (ExecT \<lparr>exit_code = 0, exit_note = ''interfaces collected''\<rparr>)]"
proof -
  let ?info = "fold collect_interface ifs []"
  obtain ns where ns: "distinct ns" "set ns = {n. \<exists>ifa \<in> set ifs. named_up n ifa}"
      "iteration env ?info = map (\<lambda>n. (n, interface_info ifs n)) ns"
    using collected_entries [of "iteration env" ifs] assms(5) by blast
  define out where
    "out = (if ns = [] then ''no interfaces are up'' else concat (map (\<lambda>n. interface_line (interface_info ifs n)) ns))"
  let ?cut = "if ex_max_output_bytes spec = 0 then out else take (unat (ex_max_output_bytes spec)) out"
  have "length ?info = length ns" using mset_eq_length [OF assms(5) [of ?info]] ns(3) by simp
  then have "?info = [] \<longleftrightarrow> ns = []" by (simp only: length_0_conv [symmetric])
  then have col: "CollectUpInterfaces (interfaces env) (iteration env) = (Status_OK, out)"
    by (simp add: CollectUpInterfaces_def assms(1) ns(3) comp_def out_def)
  have "interface_line e \<noteq> []" for e by (simp add: interface_line_def)
  then have "out \<noteq> []" unfolding out_def by (cases ns) auto
  moreover have "ex_max_output_bytes spec \<noteq> 0 \<Longrightarrow> unat (ex_max_output_bytes spec) \<noteq> 0" by (simp add: unat_eq_zero)
  ultimately have ne: "?cut \<noteq> []" by simp
  have lim: "(if ex_max_output_bytes spec > 0 \<and> length out > unat (ex_max_output_bytes spec)
      then take (unat (ex_max_output_bytes spec)) out else out) = ?cut"
    by (auto simp: word_greater_zero_iff)
  have "task_state (fst (ExecTask_Run env client_context spec t c)) = kCompleted \<and>
     enqueued (snd (ExecTask_Run env client_context spec t c)) = enqueued c @
       [Data (op_id t) (ExecChunkP (Stdout ?cut)),
        Eof (op_id t) (ExecT \<lparr>exit_code = 0, exit_note = ''interfaces collected''\<rparr>)]"
    using assms(2-4) ne unfolding ExecTask_Run_def Let_def col prod.case lim
    by (auto simp: client_ctx.exec_data client_ctx.exec_eof)
  with ns out_def show ?thesis by blast
qed

theorem exec_reports_interfaces_witness:
  "task_state (fst (ExecTask_Run (calm_env\<lparr>interfaces := Some [\<lparr>ifa_name = Some ''lo'', ifa_up = True,
       ifa_addr = Some (AF_INET, Some ''127.0.0.1'')\<rparr>]\<rparr>) client_context \<lparr>cmd = ''ip'', ex_max_output_bytes = 0\<rparr>
     (make_ExecTask 7 \<lparr>cmd = ''ip'', ex_max_output_bytes = 0\<rparr>) some_client)) = kCompleted"
  using exec_reports_interfaces [of "calm_env\<lparr>interfaces := Some [\<lparr>ifa_name = Some ''lo'', ifa_up = True,
       ifa_addr = Some (AF_INET, Some ''127.0.0.1'')\<rparr>]\<rparr>" "[\<lparr>ifa_name = Some ''lo'', ifa_up = True,
       ifa_addr = Some (AF_INET, Some ''127.0.0.1'')\<rparr>]" "\<lparr>cmd = ''ip'', ex_max_output_bytes = 0\<rparr>"
       "make_ExecTask 7 \<lparr>cmd = ''ip'', ex_max_output_bytes = 0\<rparr>" some_client]
  by (auto simp: calm_env_def exec_cmd_supported_def)

end
