(* ===== verification/Agent_Composition.thy ===== *)
theory Agent_Composition
  imports Agent_Properties Task_Properties
begin

text \<open>
  The tasks put into the client: what a run leaves alone, and the worker draining its queue with the
  tasks of the program in place of an arbitrary \<open>Task::Run\<close>.
\<close>

section \<open>What a run leaves alone\<close>

text \<open>A part of the context's state that sending does not touch.\<close>

locale task_frame =
  fixes ctx :: "'c TaskContext"
    and part :: "'c \<Rightarrow> 'x"
  assumes log_data: "part (SendLogData ctx i ch c) = part c"
    and log_eof: "part (SendEofLog ctx i e c) = part c"
    and pcap_eof: "part (SendEofPcap ctx i st c) = part c"
    and error_msg: "part (SendError ctx i co ms c) = part c"
    and exec_data: "part (SendExecData ctx i x c) = part c"
    and exec_eof: "part (SendEofExec ctx i q c) = part c"
begin

lemma stream_part:
  assumes "StreamFile F path n stop (chunk_sender ctx i) c = (status, c2)"
  shows "part c2 = part c"
proof (cases "open_in F path")
  case None
  with assms show ?thesis by (simp add: StreamFile_def)
next
  case (Some content)
  let ?n = "if n = 0 then 64 * 1024 else n"
  have feed: "part (feed (chunk_sender ctx i) cs d) = part d" for cs d
    by (induction cs arbitrary: d) (auto simp: feed_def chunk_sender_def log_data)
  have "0 < ?n" by simp
  from stream_loop_feeds [OF this, of 0 content stop 0 "chunk_sender ctx i" c] obtain m
    where "snd (stream_loop ?n stop 0 0 content (chunk_sender ctx i) c) =
      feed (chunk_sender ctx i) (take m (file_chunks ?n 0 content)) c" by blast
  with assms Some show ?thesis by (simp add: StreamFile_def feed)
qed

lemma exec_part: "ExecTask_Run env ctx spec t c = (t1, c1) \<Longrightarrow> part c1 = part c"
  by (auto simp: ExecTask_Run_def end_with_def Let_def error_msg exec_data exec_eof split: if_splits prod.splits)

lemma log_part:
  assumes "LogFilterTask_Run env ctx spec opts t F c = Some (Inr (t1, F1, c1))"
  shows "part c1 = part c"
proof -
  let ?consumer = "\<lambda>chunk c. (Status_OK, SendLogData ctx (op_id t) chunk c)"
  obtain status F2 eof c2 where r:
      "StreamLogFilter F (random_draws env) (writable env) opts spec (Some ?consumer) True c = Some (Returned status, F2, eof, c2)"
    and e: "part c1 = part c2"
    using assms
    by (auto simp: LogFilterTask_Run_def Let_def end_with_def log_eof error_msg
          split: option.splits outcome.splits if_splits prod.splits)
  have "(\<lambda>off d. ?consumer \<lparr>chunk_offset = off, chunk_data = d\<rparr>) = chunk_sender ctx (op_id t)"
    by (simp add: chunk_sender_def fun_eq_iff)
  with StreamLogFilter_state [OF r] have "c2 = c \<or> (\<exists>G path. c2 = snd (StreamFile G path (chunk_size opts) None (chunk_sender ctx (op_id t)) c))"
    by simp
  then have "part c2 = part c" using stream_part by (metis prod.collapse)
  with e show ?thesis by simp
qed

lemma pcap_part:
  assumes "PcapTask_Run fuel L env ctx spec opts t F c = Some (t1, F1, c1)"
  shows "part c1 = part c"
  using PcapTask_Run_end [OF assms] by cases (auto simp: error_msg pcap_eof dest: stream_part)

end

interpretation client_frame: task_frame client_context stream_client.more
  by unfold_locales
     (simp_all add: client_context_def DoSendLogData_def DoSendEofLog_def DoSendEofPcap_def DoSendError_def
        DoSendExecData_def DoSendEofExec_def)

text \<open>The identity of a task object.\<close>

definition same_task :: "Task \<Rightarrow> Task \<Rightarrow> bool" where
  "same_task t u \<longleftrightarrow> op_id u = op_id t \<and> body u = body t"

lemma same_task_SetState [simp]: "same_task t (SetState st (SetState st2 t))"
  by (simp add: same_task_def)

lemma pcap_same_task:
  assumes "PcapTask_Run fuel L env ctx spec opts t F c = Some (t1, F1, c1)"
  shows "same_task t t1"
proof -
  have "\<exists>st. t1 = SetState st (SetState kRunning t)"
    using assms by (auto simp: PcapTask_Run_def end_with_def Let_def split: option.splits sum.splits prod.splits if_splits)
  then show ?thesis by auto
qed

lemma Task_Run_frame:
  assumes "Task_Run fuel L env client_context t F c = Some (Inr (t1, F1, c1))"
  shows "stream_client.more c1 = stream_client.more c" and "same_task t t1"
proof -
  have exec: "same_task t t1" if "ExecTask_Run env client_context spec t c = (t1, c1)" for spec
    using that by (auto simp: ExecTask_Run_def end_with_def Let_def split: if_splits prod.splits)
  have log: "same_task t t1" if "LogFilterTask_Run env client_context spec opts t F c = Some (Inr (t1, F1, c1))" for spec opts
    using that by (auto simp: LogFilterTask_Run_def end_with_def Let_def split: if_splits option.splits outcome.splits prod.splits)
  show "stream_client.more c1 = stream_client.more c" "same_task t t1"
    using assms client_frame.exec_part client_frame.log_part client_frame.pcap_part exec log pcap_same_task
    by (auto simp: Task_Run_def split: task_body.splits prod.splits)
qed

section \<open>Draining with the tasks of the program\<close>

text \<open>
  \<open>Task::Run\<close> on a task of the heap. \<open>env p\<close> and \<open>fsys p\<close> are the environment and the file system the
  task at \<open>p\<close> meets. A run that does not return leaves the state as it is here; the theorem below
  is about tasks that return.
\<close>

definition heap_run ::
  "nat \<Rightarrow> ('h, 'p) pcap_lib \<Rightarrow> (task_ptr \<Rightarrow> task_env) \<Rightarrow> (task_ptr \<Rightarrow> fs) \<Rightarrow> task_ptr \<Rightarrow> callback_client \<Rightarrow> callback_client" where
  "heap_run fuel L env fsys p c =
     (case Task_Run fuel L (env p) client_context (heap c p) (fsys p) c of
        Some (Inr (t1, F1, c1)) \<Rightarrow> c1\<lparr>heap := (heap c1)(p := t1)\<rparr>
      | _ \<Rightarrow> c)"

definition task_returns ::
  "nat \<Rightarrow> ('h, 'p) pcap_lib \<Rightarrow> task_env \<Rightarrow> fs \<Rightarrow> Task \<Rightarrow> bool" where
  "task_returns fuel L env F t \<longleftrightarrow>
     (\<forall>u c. same_task t u \<longrightarrow> (\<exists>t1 F1 c1. Task_Run fuel L env client_context u F c = Some (Inr (t1, F1, c1))))"

text \<open>A run of the heap either changes nothing or is a run of \<open>Task_Run\<close>, whose frame it has.\<close>

lemma heap_run_cases:
  obtains "heap_run fuel L env fsys p c = c"
  | t1 F1 c1 where "Task_Run fuel L (env p) client_context (heap c p) (fsys p) c = Some (Inr (t1, F1, c1))"
      "heap_run fuel L env fsys p c = c1\<lparr>heap := (heap c)(p := t1)\<rparr>" "stream_client.more c1 = stream_client.more c"
      "same_task (heap c p) t1"
proof (cases "Task_Run fuel L (env p) client_context (heap c p) (fsys p) c")
  case None
  then show ?thesis using that(1) by (simp add: heap_run_def)
next
  case (Some r)
  show ?thesis
  proof (cases r)
    case (Inl what)
    then show ?thesis using that(1) Some by (simp add: heap_run_def)
  next
    case (Inr x)
    obtain t1 F1 c1 where x: "x = (t1, F1, c1)" by (metis prod_cases3)
    with Some Inr have r: "Task_Run fuel L (env p) client_context (heap c p) (fsys p) c = Some (Inr (t1, F1, c1))" by simp
    note f = Task_Run_frame [OF r]
    have "heap_run fuel L env fsys p c = c1\<lparr>heap := (heap c)(p := t1)\<rparr>"
      using client_part_eq(5) [OF f(1)] r by (simp add: heap_run_def)
    from that(2) [OF r this f] show ?thesis .
  qed
qed

lemma heap_run_keeps:
  "task_queue (heap_run fuel L env fsys p c) = task_queue c \<and> drain_mode (heap_run fuel L env fsys p c) = drain_mode c \<and>
   c_running (heap_run fuel L env fsys p c) = c_running c \<and> tasks (heap_run fuel L env fsys p c) = tasks c"
  by (cases rule: heap_run_cases [of fuel L env fsys p c]) (auto dest: client_part_eq)

lemma heap_run_same_task: "same_task (heap c q) (heap (heap_run fuel L env fsys p c) q)"
  by (cases rule: heap_run_cases [of fuel L env fsys p c]) (auto simp: same_task_def)

lemma run_frame_heap_run: "run_frame (heap_run fuel L env fsys)"
  using heap_run_keeps [of fuel L env fsys] heap_run_same_task [of _ _ fuel L env fsys]
  by (simp add: run_frame_def same_task_def)

lemma heap_run_sends:
  assumes "task_returns fuel L (env p) (fsys p) t" and "same_task t (heap c p)"
  shows "\<exists>st ms. enqueued (heap_run fuel L env fsys p c) = enqueued c @ ms \<and> run_report (op_id t) st ms"
proof -
  obtain t1 F1 c1 where r: "Task_Run fuel L (env p) client_context (heap c p) (fsys p) c = Some (Inr (t1, F1, c1))"
    using assms unfolding task_returns_def by blast
  with client_ctx.Task_report [OF r] assms(2) show ?thesis by (auto simp: heap_run_def same_task_def)
qed

text \<open>One round of the worker on the real tasks.\<close>

lemma run_one_heap_run:
  assumes "task_queue c = p # q" and "p \<noteq> nullptr" and "task_returns fuel L (env p) (fsys p) t" and "same_task t (heap c p)"
  shows "\<exists>st ms. enqueued (run_one (heap_run fuel L env fsys) c) = enqueued c @ ms \<and> run_report (op_id t) st ms"
    and "same_task (heap c r) (heap (run_one (heap_run fuel L env fsys) c) r)"
proof -
  let ?c = "Worker_take c"
  have w: "enqueued ?c = enqueued c" "heap ?c = heap c" "current_task ?c = p" using assms(1) by (simp_all add: Worker_take_def)
  have f: "enqueued (Worker_finish p d) = enqueued d" "heap (Worker_finish p d) = heap d" for d
    by (simp_all add: Worker_finish_def Let_def)
  show "\<exists>st ms. enqueued (run_one (heap_run fuel L env fsys) c) = enqueued c @ ms \<and> run_report (op_id t) st ms"
    using heap_run_sends [of fuel L env p fsys t ?c] assms(2-4) by (simp add: run_one_def RunTask_def Let_def w f)
  show "same_task (heap c r) (heap (run_one (heap_run fuel L env fsys) c) r)"
    using heap_run_same_task [of ?c r fuel L env fsys p] assms(2) by (simp add: run_one_def RunTask_def Let_def w f)
qed

lemma run_all_heap_run:
  assumes "n \<le> length (task_queue c)" and "c_running c" and "drain_mode c" and "nullptr \<notin> set (task_queue c)"
    and ret: "\<And>p. p \<in> set (task_queue c) \<Longrightarrow> task_returns fuel L (env p) (fsys p) (heap c p)"
  shows "(\<exists>out. length out = n \<and> enqueued ((run_one (heap_run fuel L env fsys) ^^ n) c) = enqueued c @ concat out \<and>
            (\<forall>k < n. \<exists>st. run_report (ptr_op c (task_queue c ! k)) st (out ! k))) \<and>
         (\<forall>r. same_task (heap c r) (heap ((run_one (heap_run fuel L env fsys) ^^ n) c) r))"
  using assms(1)
proof (induction n)
  case 0
  show ?case by (simp add: same_task_def)
next
  case (Suc n)
  let ?run = "heap_run fuel L env fsys" and ?p = "task_queue c ! n"
  let ?d = "(run_one ?run ^^ n) c"
  from Suc obtain out where out: "length out = n" "enqueued ?d = enqueued c @ concat out"
      "\<forall>k < n. \<exists>st. run_report (ptr_op c (task_queue c ! k)) st (out ! k)"
    and same: "\<forall>r. same_task (heap c r) (heap ?d r)" by auto
  have q: "task_queue ?d = ?p # drop (Suc n) (task_queue c)"
    using run_all_frame [OF run_frame_heap_run, of n c] Suc.prems assms(2,3) by (auto simp: Cons_nth_drop_Suc)
  have p: "?p \<in> set (task_queue c)" using Suc.prems by simp
  with assms(4) have "?p \<noteq> nullptr" by metis
  note one = run_one_heap_run [where t = "heap c ?p" and env = env and fsys = fsys, OF q this ret [OF p] same [rule_format, of ?p]]
  from one(1) obtain st ms where "enqueued (run_one ?run ?d) = enqueued ?d @ ms" "run_report (ptr_op c ?p) st ms"
    by (auto simp: ptr_op_def)
  with out have "length (out @ [ms]) = Suc n \<and> enqueued (run_one ?run ?d) = enqueued c @ concat (out @ [ms]) \<and>
      (\<forall>k < Suc n. \<exists>st. run_report (ptr_op c (task_queue c ! k)) st ((out @ [ms]) ! k))"
    by (auto simp: nth_append less_Suc_eq)
  moreover have "same_task (heap c r) (heap (run_one ?run ?d) r)" for r
    using one(2) [of r] same by (auto simp: same_task_def)
  ultimately show ?case unfolding funpow.simps comp_def by blast
qed

text \<open>
  C10. Draining with the program's own tasks: if every queued task returns, then a drain request lets
  the worker run them all, in queue order, and stop the client; what is sent in that time is, for
  each queued operation in turn, its data followed by exactly one trailer or error. The queued tasks
  may be of any kind and may fail.
\<close>

theorem drain_delivers:
  assumes "client_inv c" and "c_running c" and "task_queue c \<noteq> []"
    and "\<And>p. p \<in> set (task_queue c) \<Longrightarrow> task_returns fuel L (env p) (fsys p) (heap c p)"
  shows "\<exists>d out. WorkerLoop (Suc (length (task_queue c))) (heap_run fuel L env fsys) (HandleShutdown True c) = Some d \<and>
     \<not> c_running d \<and> task_queue d = [] \<and> length out = length (task_queue c) \<and> enqueued d = enqueued c @ concat out \<and>
     (\<forall>k < length out. \<exists>st. run_report (ptr_op c (task_queue c ! k)) st (out ! k))"
proof -
  have h: "HandleShutdown True c = c\<lparr>drain_mode := True\<rparr>"
    by (simp add: HandleShutdown_def HandleShutdown_locked_def)
  have null: "nullptr \<notin> set (task_queue c)"
    using assms(1) by (fastforce simp: client_inv_def table_inv_def)
  let ?c = "c\<lparr>drain_mode := True\<rparr>" and ?n = "length (task_queue c)"
  obtain out where out: "length out = ?n" "enqueued ((run_one (heap_run fuel L env fsys) ^^ ?n) ?c) = enqueued c @ concat out"
      "\<forall>k < ?n. \<exists>st. run_report (ptr_op ?c (task_queue c ! k)) st (out ! k)"
    using run_all_heap_run [of ?n ?c fuel L env fsys] assms(2,4) null by auto
  let ?d = "(run_one (heap_run fuel L env fsys) ^^ ?n) ?c"
  have "WorkerLoop (Suc ?n) (heap_run fuel L env fsys) ?c = Some ?d"
    using WorkerLoop_drain [OF run_frame_heap_run [of fuel L env fsys], of ?c] assms(2,3) by simp
  moreover have "\<not> c_running ?d" "task_queue ?d = []"
    using run_all_frame [OF run_frame_heap_run [of fuel L env fsys], of ?n ?c] assms(2,3) by simp_all
  moreover have "\<forall>k < length out. \<exists>st. run_report (ptr_op c (task_queue c ! k)) st (out ! k)"
    using out(1,3) by (simp add: ptr_op_def)
  ultimately show ?thesis unfolding h using out(1,2) by blast
qed

theorem drain_delivers_witness:
  "\<exists>d out. WorkerLoop 2 (heap_run 0 no_pcap (\<lambda>p. calm_env) (\<lambda>p. capture_fs)) (HandleShutdown True demo_queued) = Some d \<and>
     \<not> c_running d \<and> enqueued d = concat out \<and> length out = 1 \<and> (\<exists>st. run_report 7 st (out ! 0))"
proof -
  have b: "\<exists>spec. body (heap demo_queued 1) = ExecTask spec"
    by (simp add: demo_queued_def StartOp_commit_def Let_def Run_begin_def demo_client_eq demo_task_def
          make_ExecTask_def new_Task_def)
  have "task_returns 0 no_pcap calm_env capture_fs (heap demo_queued 1)"
    using b by (auto simp: task_returns_def same_task_def Task_Run_def split: prod.splits)
  then have ret: "\<And>p. p \<in> set (task_queue demo_queued) \<Longrightarrow> task_returns 0 no_pcap calm_env capture_fs (heap demo_queued p)"
    by (simp add: demo_queued_facts)
  from drain_delivers [OF client_inv_demo_queued demo_queued_facts(1) _ ret] obtain d out
    where d: "WorkerLoop (Suc (length (task_queue demo_queued))) (heap_run 0 no_pcap (\<lambda>p. calm_env) (\<lambda>p. capture_fs))
        (HandleShutdown True demo_queued) = Some d"
      "\<not> c_running d" "length out = length (task_queue demo_queued)" "enqueued d = enqueued demo_queued @ concat out"
      "\<forall>k < length out. \<exists>st. run_report (ptr_op demo_queued (task_queue demo_queued ! k)) st (out ! k)"
    by (auto simp: demo_queued_facts simp del: WorkerLoop.simps)
  have n: "Suc (length (task_queue demo_queued)) = 2" by (simp add: demo_queued_facts)
  have "\<exists>st. run_report 7 st (out ! 0)" using d(3,5) by (simp add: demo_queued_facts del: One_nat_def)
  with d(1) [unfolded n] d(2-4) show ?thesis by (auto simp: demo_queued_facts simp del: WorkerLoop.simps)
qed

end
