(* ===== verification/Agent_Runtime.thy ===== *)
theory Agent_Runtime
  imports Callback_Client
begin

text \<open>
  The process-wide settings of the agent and its entry point
  (\<open>standalone/source/agent/agent_impl.cpp\<close>): the run flag and its signal handler, the test hooks,
  the feature toggles, the reconnect delays and the interruptible sleep, and \<open>StartAgent\<close>.
  Durations are milliseconds.
\<close>

section \<open>The settings\<close>

text \<open>
  \<open>'l\<close> is what a logger sink is. \<open>g_send_hook\<close> only observes messages, so it is recorded as
  present or not. \<open>signal_handlers\<close>: the signals whose handler is \<open>HandleSignal\<close>.
\<close>

record 'l runtime =
  g_running :: bool
  g_backoff_hook :: "(nat \<Rightarrow> int) option"
  g_sleep_hook :: "(int \<Rightarrow> int list) option"
  g_send_hook :: bool
  g_logger_sink :: "'l option"
  g_log_options_override :: "LogOptions option"
  g_feature_toggles :: FeatureToggles
  signal_handlers :: "int set"

definition initial_runtime :: "'l runtime" where
  "initial_runtime = \<lparr>g_running = True, g_backoff_hook = None, g_sleep_hook = None, g_send_hook = False,
     g_logger_sink = None, g_log_options_override = None, g_feature_toggles = default_FeatureToggles,
     signal_handlers = {}\<rparr>"

definition IsRunning :: "'l runtime \<Rightarrow> bool" where
  "IsRunning rt = g_running rt"

definition RequestStop :: "'l runtime \<Rightarrow> 'l runtime" where
  "RequestStop rt = rt\<lparr>g_running := False\<rparr>"

definition ClearTestHooks :: "'l runtime \<Rightarrow> 'l runtime" where
  "ClearTestHooks rt = rt\<lparr>g_backoff_hook := None, g_sleep_hook := None, g_send_hook := False\<rparr>"

definition ResetForTests :: "'l runtime \<Rightarrow> 'l runtime" where
  "ResetForTests rt =
     (ClearTestHooks (rt\<lparr>g_running := True\<rparr>))
       \<lparr>g_log_options_override := None, g_feature_toggles := default_FeatureToggles\<rparr>"

definition SetBackoffHookForTests :: "(nat \<Rightarrow> int) option \<Rightarrow> 'l runtime \<Rightarrow> 'l runtime" where
  "SetBackoffHookForTests hook rt = rt\<lparr>g_backoff_hook := hook\<rparr>"

definition SetSleepHookForTests :: "(int \<Rightarrow> int list) option \<Rightarrow> 'l runtime \<Rightarrow> 'l runtime" where
  "SetSleepHookForTests hook rt = rt\<lparr>g_sleep_hook := hook\<rparr>"

definition SetSendHookForTests :: "bool \<Rightarrow> 'l runtime \<Rightarrow> 'l runtime" where
  "SetSendHookForTests hook rt = rt\<lparr>g_send_hook := hook\<rparr>"

definition SetLogOptions :: "LogOptions \<Rightarrow> 'l runtime \<Rightarrow> 'l runtime" where
  "SetLogOptions opts rt = rt\<lparr>g_log_options_override := Some opts\<rparr>"

definition GetLogOptionsOverride :: "'l runtime \<Rightarrow> LogOptions option" where
  "GetLogOptionsOverride rt = g_log_options_override rt"

definition SetAdditionalLoggerSink :: "'l option \<Rightarrow> 'l runtime \<Rightarrow> 'l runtime" where
  "SetAdditionalLoggerSink sink rt = rt\<lparr>g_logger_sink := sink\<rparr>"

definition GetFeatureToggles :: "'l runtime \<Rightarrow> FeatureToggles" where
  "GetFeatureToggles rt = g_feature_toggles rt"

definition SetFeatureToggles :: "FeatureToggles \<Rightarrow> 'l runtime \<Rightarrow> 'l runtime" where
  "SetFeatureToggles toggles rt =
     (let t = (if \<not> enabled toggles
               then toggles\<lparr>enable_log_filter := False, enable_pcap := False, enable_exec := False\<rparr>
               else toggles)
      in rt\<lparr>g_feature_toggles := t\<rparr>)"

definition SIGINT :: int where
  "SIGINT = 2"

definition SIGTERM :: int where
  "SIGTERM = 15"

definition HandleSignal :: "int \<Rightarrow> 'l runtime \<Rightarrow> 'l runtime" where
  "HandleSignal signo rt = (if signo = SIGINT \<or> signo = SIGTERM then RequestStop rt else rt)"

section \<open>Delays\<close>

definition ComputeBackoff :: "'l runtime \<Rightarrow> nat \<Rightarrow> int" where
  "ComputeBackoff rt n =
     (case g_backoff_hook rt of
        Some hook \<Rightarrow> hook n
      | None \<Rightarrow>
          (let base = 500; max_delay = 30 * 1000; multiplier = 2 ^ min n 6; delay = base * multiplier
           in if delay > max_delay then max_delay else delay))"

text \<open>
  \<open>SleepWithStop\<close>: the sleeps it makes. The \<open>k\<close>-th test of \<open>IsRunning\<close> answers \<open>running k\<close>; the
  flag is shared with the signal handler.
\<close>

function SleepWithStop_loop :: "(nat \<Rightarrow> bool) \<Rightarrow> nat \<Rightarrow> int \<Rightarrow> int list" where
  "SleepWithStop_loop running k remaining =
     (if running k \<and> remaining > 0 then
        (let chunk = (if remaining > 200 then 200 else remaining)
         in chunk # SleepWithStop_loop running (Suc k) (remaining - chunk))
      else [])"
  by pat_completeness auto
termination
  by (relation "measure (\<lambda>(running, k, remaining). nat remaining)") auto

declare SleepWithStop_loop.simps [simp del]

definition SleepWithStop :: "(nat \<Rightarrow> bool) \<Rightarrow> int \<Rightarrow> 'l runtime \<Rightarrow> int list" where
  "SleepWithStop running delay rt =
     (case g_sleep_hook rt of Some hook \<Rightarrow> hook delay | None \<Rightarrow> SleepWithStop_loop running 0 delay)"

section \<open>The entry point\<close>

datatype start_result =
    MissingStub
  | StillRunning
  | Finished callback_client

text \<open>
  \<open>during\<close> and \<open>join\<close> are what the other threads do while the stream is open and while the worker
  is joined, \<open>tmp\<close> the temporary directory, \<open>last_ev\<close> the last authorization event.
\<close>

definition StartAgent ::
  "nat \<Rightarrow> (reactor_id \<Rightarrow> callback_client \<Rightarrow> callback_client) \<Rightarrow> (callback_client \<Rightarrow> callback_client) \<Rightarrow>
   string option \<Rightarrow> AuthStateChangedEvent option \<Rightarrow> bool \<Rightarrow> string \<Rightarrow> 'l runtime \<Rightarrow> start_result \<times> 'l runtime" where
  "StartAgent fuel during join tmp last_ev stub i rt =
     (if \<not> stub then (MissingStub, rt)
      else
        (let rt1 = rt\<lparr>signal_handlers := signal_handlers rt \<union> {SIGINT, SIGTERM}\<rparr>;
             log_opts = (case GetLogOptionsOverride rt1 of Some opts \<Rightarrow> opts | None \<Rightarrow> default_LogOptions);
             c = (new_ControlCallbackClient i log_opts (GetFeatureToggles rt1) tmp last_ev)
                   \<lparr>env_run := IsRunning rt1\<rparr>
         in (case Client_Run fuel (ComputeBackoff rt1) during join c of
               None \<Rightarrow> StillRunning
             | Some d \<Rightarrow> Finished d, rt1)))"

section \<open>Properties\<close>

lemma pow2_min6: "(2::int) ^ min n 6 = (if n = 0 then 1 else if n = 1 then 2 else if n = 2 then 4 else if n = 3 then 8
   else if n = 4 then 16 else if n = 5 then 32 else 64)"
proof -
  have "n = 0 \<or> n = 1 \<or> n = 2 \<or> n = 3 \<or> n = 4 \<or> n = 5 \<or> 6 \<le> n" by arith
  then show ?thesis by (elim disjE) (simp_all add: min_def)
qed

lemma ComputeBackoff_closed:
  "g_backoff_hook rt = None \<Longrightarrow> ComputeBackoff rt n = (if n < 6 then 500 * 2 ^ n else 30000)"
proof -
  assume h: "g_backoff_hook rt = None"
  have "n = 0 \<or> n = 1 \<or> n = 2 \<or> n = 3 \<or> n = 4 \<or> n = 5 \<or> 6 \<le> n" by arith
  then show ?thesis by (elim disjE) (simp_all add: ComputeBackoff_def h min_def)
qed

text \<open>
  The reconnect delay doubles from half a second with each attempt up to the cap of thirty
  seconds, which it reaches at the sixth attempt and never exceeds.
\<close>

lemma backoff_bounds:
  assumes "g_backoff_hook rt = None"
  shows "500 \<le> ComputeBackoff rt n \<and> ComputeBackoff rt n \<le> 30000 \<and>
         ComputeBackoff rt n \<le> ComputeBackoff rt (Suc n) \<and>
         (n < 5 \<longrightarrow> ComputeBackoff rt (Suc n) = 2 * ComputeBackoff rt n) \<and>
         (6 \<le> n \<longrightarrow> ComputeBackoff rt n = 30000)"
proof -
  have "n = 0 \<or> n = 1 \<or> n = 2 \<or> n = 3 \<or> n = 4 \<or> n = 5 \<or> 6 \<le> n" by arith
  then show ?thesis by (elim disjE) (simp_all add: ComputeBackoff_closed [OF assms])
qed

lemma backoff_bounds_example:
  "g_backoff_hook (initial_runtime :: string runtime) = None \<and> ComputeBackoff (initial_runtime :: string runtime) 9 = 30000"
  using backoff_bounds [of "initial_runtime :: string runtime" 9] by (simp add: initial_runtime_def)

lemma Run_connect_keeps:
  "attempt (Run_connect client_callbacks c) = attempt c" "slept (Run_connect client_callbacks c) = slept c"
  "s_running (Run_connect client_callbacks c) = s_running c" "c_running (Run_connect client_callbacks c) = c_running c"
  "env_run (Run_connect client_callbacks c) = env_run c" "next_reactor (Run_connect client_callbacks c) = Suc (next_reactor c)"
proof -
  have cb: "ready_callback client_callbacks = Some (\<lambda>c. EnqueueWrite (MakeHello (agent_id c)) c)"
    by (simp add: client_callbacks_def SetStreamClosedCallback_def SetMessageCallback_def SetReadyCallback_def)
  show "attempt (Run_connect client_callbacks c) = attempt c" "slept (Run_connect client_callbacks c) = slept c"
    "s_running (Run_connect client_callbacks c) = s_running c" "c_running (Run_connect client_callbacks c) = c_running c"
    "env_run (Run_connect client_callbacks c) = env_run c" "next_reactor (Run_connect client_callbacks c) = Suc (next_reactor c)"
    by (simp_all add: Run_connect_def Reactor_Start_def OnStreamReady_def cb EnqueueWrite_def MaybeStartWriteLocked_def
          log_io_def Let_def split: list.splits option.splits)
qed

text \<open>
  The sleeps between two connections: a run of the stream client that ends after \<open>n\<close> retries
  has slept exactly the backoff delays of the attempts, in order, and nothing else.
\<close>

lemma reconnect_delays:
  assumes hook: "g_backoff_hook rt = None"
    and quiet: "\<And>r c. attempt (during r c) = attempt c \<and> slept (during r c) = slept c"
    and run: "Run fuel (client_stream_options (ComputeBackoff rt)) client_callbacks during s = Some t"
  shows "slept t = slept s @ map (ComputeBackoff rt) [1..<Suc (attempt t)]"
proof -
  have f: "backoff_fn (client_stream_options (ComputeBackoff rt)) = Some (ComputeBackoff rt)"
    by (simp add: client_stream_options_def ControlStreamClient_options_def)
  have pos: "filter (\<lambda>d. d > 0) (map (ComputeBackoff rt) ns) = map (ComputeBackoff rt) ns" for ns
    by (rule filter_True) (auto simp: ComputeBackoff_closed [OF hook])
  from Run_loop_slept [OF run [unfolded Run_def] f _ quiet] show ?thesis
    by (simp only: pos) (simp add: Run_begin_def Run_connect_keeps)
qed

definition two_streams :: "reactor_id \<Rightarrow> callback_client \<Rightarrow> callback_client" where
  "two_streams r c = (if r = 1 then c\<lparr>c_running := False\<rparr> else c)"

definition fresh_agent :: callback_client where
  "fresh_agent = (new_ControlCallbackClient ''agent'' default_LogOptions default_FeatureToggles None None)\<lparr>c_running := True\<rparr>"

lemma fresh_agent_facts:
  "slept fresh_agent = []" "c_running fresh_agent" "env_run fresh_agent" "next_reactor fresh_agent = 0"
  by (simp_all add: fresh_agent_def new_ControlCallbackClient_def ApplyFeatureUpdate_def ApplyFeatureUpdate_locked_def
        default_LogOptions_def Let_def)

lemma two_streams_run:
  "\<exists>t. Run 3 (client_stream_options (ComputeBackoff initial_runtime)) client_callbacks two_streams fresh_agent = Some t \<and>
       attempt t = 1"
  by (simp add: Run_def numeral_3_eq_3 Run_begin_def Run_retry_def ShouldContinue_def client_stream_options_def
        ControlStreamClient_options_def ShouldStreamContinue_def Run_connect_keeps two_streams_def fresh_agent_facts
        Let_def)

lemma reconnect_delays_example:
  "slept (the (Run 3 (client_stream_options (ComputeBackoff (initial_runtime :: string runtime))) client_callbacks
       two_streams fresh_agent)) = [1000]"
proof -
  obtain t where t: "Run 3 (client_stream_options (ComputeBackoff (initial_runtime :: string runtime)))
      client_callbacks two_streams fresh_agent = Some t" "attempt t = 1"
    using two_streams_run by blast
  have "slept t = slept fresh_agent @ map (ComputeBackoff (initial_runtime :: string runtime)) [1..<Suc (attempt t)]"
    by (rule reconnect_delays [OF _ _ t(1)]) (simp_all add: initial_runtime_def two_streams_def)
  with t fresh_agent_facts(1) show ?thesis by (simp add: ComputeBackoff_def initial_runtime_def)
qed

lemma sleep_loop_props:
  "sum_list (SleepWithStop_loop running k d) \<le> max 0 d \<and>
   (\<forall>c \<in> set (SleepWithStop_loop running k d). 0 < c \<and> c \<le> 200) \<and>
   ((\<forall>j. running j) \<longrightarrow> sum_list (SleepWithStop_loop running k d) = max 0 d) \<and>
   (\<forall>m. \<not> running (k + m) \<longrightarrow> length (SleepWithStop_loop running k d) \<le> m)"
proof (induction running k d rule: SleepWithStop_loop.induct)
  case (1 running k d)
  show ?case
  proof (cases "running k \<and> d > 0")
    case True
    let ?c = "if d > 200 then 200 else d"
    note ih = 1 [OF True refl]
    have eq: "SleepWithStop_loop running k d = ?c # SleepWithStop_loop running (Suc k) (d - ?c)"
      using True by (subst SleepWithStop_loop.simps) (simp add: Let_def)
    have "length (SleepWithStop_loop running k d) \<le> m" if "\<not> running (k + m)" for m
      using that True ih by (cases m) (auto simp: eq)
    moreover define f where "f = SleepWithStop_loop running (Suc k) (d - ?c)"
    ultimately show ?thesis using ih True unfolding eq f_def [symmetric] by (auto simp: max_def split: if_splits)
  next
    case False
    then have "SleepWithStop_loop running k d = []" by (subst SleepWithStop_loop.simps) auto
    then show ?thesis unfolding \<open>SleepWithStop_loop running k d = []\<close> using False by (auto simp: max_def)
  qed
qed

text \<open>
  The interruptible sleep sleeps in steps of at most 200 milliseconds, for the whole delay and
  not longer if the agent keeps running, and ends within the current step once it is asked to stop:
  if the \<open>m\<close>-th test finds the agent stopped, at most \<open>m\<close> steps have been slept.
\<close>

lemma sleep_is_interruptible:
  assumes "g_sleep_hook rt = None" and "0 \<le> d"
  shows "(\<forall>c \<in> set (SleepWithStop running d rt). 0 < c \<and> c \<le> 200) \<and>
         sum_list (SleepWithStop running d rt) \<le> d \<and>
         ((\<forall>k. running k) \<longrightarrow> sum_list (SleepWithStop running d rt) = d) \<and>
         (\<forall>m. \<not> running m \<longrightarrow> length (SleepWithStop running d rt) \<le> m)"
  using sleep_loop_props [of running 0 d] assms by (simp add: SleepWithStop_def max_def)

lemma sleep_is_interruptible_example:
  "sum_list (SleepWithStop (\<lambda>k. True) 500 (initial_runtime :: string runtime)) = 500 \<and>
   length (SleepWithStop (\<lambda>k. k < 2) 500 (initial_runtime :: string runtime)) \<le> 2"
  using sleep_is_interruptible [of "initial_runtime :: string runtime" 500 "\<lambda>k. True"]
    sleep_is_interruptible [of "initial_runtime :: string runtime" 500 "\<lambda>k. k < 2"]
  by (simp add: initial_runtime_def)

text \<open>
  Configuring the features keeps their meaning: the gate answers the same for the configured
  and the stored toggles, and storing what was read back changes nothing.
\<close>

lemma toggles_normalised:
  "IsTaskAllowed (GetFeatureToggles (SetFeatureToggles t rt)) k = IsTaskAllowed t k \<and>
   SetFeatureToggles (GetFeatureToggles (SetFeatureToggles t rt)) rt = SetFeatureToggles t rt"
  by (cases k) (auto simp: IsTaskAllowed_def GetFeatureToggles_def SetFeatureToggles_def Let_def)

end
