(* ===== verification/Auth_Client.thy ===== *)
theory Auth_Client
  imports Event_Bus
begin

text \<open>
  The authorization client (\<open>source/zurg/auth/auth_client.cpp\<close>): a thread that keeps one read stream
  to the authorization server, the reactor gRPC calls back, and the calls that start and stop it.
  \<open>'m\<close> is the state the two callbacks act on. Reactors are numbered in the order of their creation.
  gRPC and the creation of channels are parameters: which callback comes when, and whether a
  channel and its stub could be created. Sleeps have no effect on the state.
\<close>

section \<open>Messages\<close>

record Asset =
  sn :: string
  asset_name :: string
  expire_at :: int
  is_expired :: bool
  remaining_valid_timestamp :: int
  created_at :: int

record LicenseResp =
  request_id :: string
  assets :: "Asset list"

datatype ServerMessage = CONTENT_NOT_SET | LicenseRespMsg LicenseResp

section \<open>State\<close>

text \<open>
  Where the stream thread is: at the test of its loop, before the creation of a reactor, before its
  start, in the wait for the end of reactor \<open>r\<close>, in the second wait, past the waits, before the
  reconnection, and past the loop.
\<close>

datatype loop_pc = AtTop | Creating | Starting nat | Waiting nat | Ending nat | Leaving nat | Reconnecting nat | AtExit | Exited

text \<open>
  The last four components are not in the code: how many reactors have been created, the ones that
  have asked gRPC for a call, those whose call ended with \<open>OnDone\<close>, and those whose object is gone.
\<close>

record 'm auth_client =
  ac_running :: bool
  ac_mode :: AuthMode
  has_stub :: bool
  reconnect_attempts :: nat
  reconnect_needed :: bool
  active_reactor :: "nat option"
  reactor_finished :: "nat \<Rightarrow> bool"
  stream_thread :: "loop_pc option"
  message_callback :: "(LicenseResp \<Rightarrow> 'm \<Rightarrow> 'm) option"
  connection_callback :: "(bool \<Rightarrow> 'm \<Rightarrow> 'm) option"
  owner :: 'm
  created :: nat
  calls :: "nat set"
  calls_done :: "nat set"
  freed :: "nat set"

text \<open>\<open>NewStub\<close> on a created channel gives a stub.\<close>

definition new_AuthClient :: "'m \<Rightarrow> 'm auth_client" where
  "new_AuthClient m = \<lparr>ac_running = False, ac_mode = Mode_kOnline, has_stub = True, reconnect_attempts = 0,
     reconnect_needed = False, active_reactor = None, reactor_finished = (\<lambda>_. False), stream_thread = None,
     message_callback = None, connection_callback = None, owner = m, created = 0, calls = {}, calls_done = {}, freed = {}\<rparr>"

definition Auth_SetMessageCallback :: "(LicenseResp \<Rightarrow> 'm \<Rightarrow> 'm) \<Rightarrow> 'm auth_client \<Rightarrow> 'm auth_client" where
  "Auth_SetMessageCallback f c = c\<lparr>message_callback := Some f\<rparr>"

definition SetConnectionCallback :: "(bool \<Rightarrow> 'm \<Rightarrow> 'm) \<Rightarrow> 'm auth_client \<Rightarrow> 'm auth_client" where
  "SetConnectionCallback f c = c\<lparr>connection_callback := Some f\<rparr>"

definition Auth_SetMode :: "AuthMode \<Rightarrow> 'm auth_client \<Rightarrow> 'm auth_client" where
  "Auth_SetMode m c = c\<lparr>ac_mode := m\<rparr>"

section \<open>The reactor\<close>

definition Auth_Reactor_Stop :: "nat \<Rightarrow> 'm auth_client \<Rightarrow> 'm auth_client" where
  "Auth_Reactor_Stop r c = c\<lparr>reactor_finished := (reactor_finished c)(r := True)\<rparr>"

definition Auth_Reactor_Start :: "nat \<Rightarrow> 'm auth_client \<Rightarrow> 'm auth_client" where
  "Auth_Reactor_Start r c = c\<lparr>reactor_finished := (reactor_finished c)(r := False), calls := insert r (calls c)\<rparr>"

definition OnReadDone :: "nat \<Rightarrow> bool \<Rightarrow> ServerMessage \<Rightarrow> 'm auth_client \<Rightarrow> 'm auth_client" where
  "OnReadDone r ok response c =
     (if reactor_finished c r \<or> \<not> ok then c
      else (case (response, message_callback c) of
              (LicenseRespMsg resp, Some f) \<Rightarrow> c\<lparr>owner := f resp (owner c)\<rparr>
            | _ \<Rightarrow> c))"

definition NotifyReconnect :: "'m auth_client \<Rightarrow> 'm auth_client" where
  "NotifyReconnect c = c\<lparr>reconnect_needed := True\<rparr>"

definition OnDone :: "nat \<Rightarrow> bool \<Rightarrow> 'm auth_client \<Rightarrow> 'm auth_client" where
  "OnDone r status_is_ok c =
     (let c1 = c\<lparr>reactor_finished := (reactor_finished c)(r := True), calls_done := insert r (calls_done c)\<rparr>;
          c2 = (case connection_callback c1 of None \<Rightarrow> c1 | Some f \<Rightarrow> c1\<lparr>owner := f status_is_ok (owner c1)\<rparr>)
      in if \<not> status_is_ok \<and> ac_running c2 then NotifyReconnect c2 else c2)"

section \<open>Starting and stopping\<close>

text \<open>\<open>StreamLoop\<close> begins with resetting the attempts.\<close>

definition Auth_Start :: "'m auth_client \<Rightarrow> 'm auth_client" where
  "Auth_Start c =
     (if ac_running c then c
      else if ac_mode c = Mode_kOffline then c\<lparr>ac_running := False\<rparr>
      else c\<lparr>ac_running := True, stream_thread := Some AtTop, reconnect_attempts := 0\<rparr>)"

text \<open>\<open>Stop\<close> up to the join, and the join, which waits for the thread to have left its loop.\<close>

definition Auth_Stop :: "'m auth_client \<Rightarrow> 'm auth_client" where
  "Auth_Stop c =
     (if \<not> ac_running c then c
      else
        (let c1 = c\<lparr>ac_running := False\<rparr>;
             c2 = (case active_reactor c1 of None \<Rightarrow> c1 | Some r \<Rightarrow> Auth_Reactor_Stop r c1)
         in c2\<lparr>reconnect_needed := True\<rparr>))"

definition Auth_Stop_join :: "'m auth_client \<Rightarrow> 'm auth_client" where
  "Auth_Stop_join c = (if stream_thread c = Some Exited then c\<lparr>stream_thread := None\<rparr> else c)"

text \<open>\<open>channel_ok\<close>: a channel and its stub could be created. A failed channel keeps the old stub.\<close>

definition Reconnect :: "bool \<Rightarrow> bool \<Rightarrow> 'm auth_client \<Rightarrow> bool \<times> 'm auth_client" where
  "Reconnect channel_ok stub_ok c =
     (if \<not> channel_ok then (False, c)
      else if \<not> stub_ok then (False, c\<lparr>has_stub := False\<rparr>)
      else (True, c\<lparr>has_stub := True, reconnect_attempts := 0\<rparr>))"

section \<open>The stream thread\<close>

text \<open>One pass over a piece of \<open>StreamLoop\<close>.\<close>

definition Loop_top :: "bool \<Rightarrow> bool \<Rightarrow> 'm auth_client \<Rightarrow> 'm auth_client" where
  "Loop_top channel_ok stub_ok c =
     (if \<not> ac_running c then c\<lparr>stream_thread := Some AtExit\<rparr>
      else if has_stub c then c\<lparr>stream_thread := Some Creating\<rparr>
      else (case Reconnect channel_ok stub_ok c of
              (ok, c1) \<Rightarrow> if ok then c1\<lparr>stream_thread := Some Creating\<rparr> else c1))"

definition Loop_create :: "'m auth_client \<Rightarrow> 'm auth_client" where
  "Loop_create c =
     c\<lparr>active_reactor := Some (created c), reactor_finished := (reactor_finished c)(created c := False),
       created := Suc (created c), stream_thread := Some (Starting (created c))\<rparr>"

definition Loop_start :: "nat \<Rightarrow> 'm auth_client \<Rightarrow> 'm auth_client" where
  "Loop_start r c = Auth_Reactor_Start r (c\<lparr>reconnect_needed := False, stream_thread := Some (Waiting r)\<rparr>)"

definition Loop_wait :: "nat \<Rightarrow> 'm auth_client \<Rightarrow> 'm auth_client" where
  "Loop_wait r c =
     (if \<not> ac_running c \<or> reactor_finished c r then c\<lparr>stream_thread := Some (Ending r)\<rparr>
      else if reconnect_needed c then
        (Auth_Reactor_Stop r (c\<lparr>reconnect_needed := False\<rparr>))\<lparr>stream_thread := Some (Ending r)\<rparr>
      else c)"

definition Loop_end :: "nat \<Rightarrow> 'm auth_client \<Rightarrow> 'm auth_client" where
  "Loop_end r c = (if ac_running c \<and> \<not> reactor_finished c r then c else c\<lparr>stream_thread := Some (Leaving r)\<rparr>)"

text \<open>Leaving the block destroys the reactor: on the way out here, else after the reconnection.\<close>

definition Loop_leave :: "nat \<Rightarrow> 'm auth_client \<Rightarrow> 'm auth_client" where
  "Loop_leave r c =
     (let c1 = (if active_reactor c = Some r then c\<lparr>active_reactor := None\<rparr> else c)
      in if \<not> ac_running c1 then c1\<lparr>stream_thread := Some AtExit, freed := insert r (freed c1)\<rparr>
         else c1\<lparr>reconnect_attempts := reconnect_attempts c1 + 1, stream_thread := Some (Reconnecting r)\<rparr>)"

definition Loop_reconnect :: "bool \<Rightarrow> bool \<Rightarrow> nat \<Rightarrow> 'm auth_client \<Rightarrow> 'm auth_client" where
  "Loop_reconnect channel_ok stub_ok r c =
     (let c1 = snd (Reconnect channel_ok stub_ok c)
      in c1\<lparr>stream_thread := Some AtTop, freed := insert r (freed c1)\<rparr>)"

definition Loop_exit :: "'m auth_client \<Rightarrow> 'm auth_client" where
  "Loop_exit c = c\<lparr>active_reactor := None, stream_thread := Some Exited\<rparr>"

text \<open>One step of the thread, from where it is.\<close>

definition StreamLoop_step :: "bool \<Rightarrow> bool \<Rightarrow> 'm auth_client \<Rightarrow> 'm auth_client" where
  "StreamLoop_step channel_ok stub_ok c =
     (case stream_thread c of
        None \<Rightarrow> c
      | Some AtTop \<Rightarrow> Loop_top channel_ok stub_ok c
      | Some Creating \<Rightarrow> Loop_create c
      | Some (Starting r) \<Rightarrow> Loop_start r c
      | Some (Waiting r) \<Rightarrow> Loop_wait r c
      | Some (Ending r) \<Rightarrow> Loop_end r c
      | Some (Leaving r) \<Rightarrow> Loop_leave r c
      | Some (Reconnecting r) \<Rightarrow> Loop_reconnect channel_ok stub_ok r c
      | Some AtExit \<Rightarrow> Loop_exit c
      | Some Exited \<Rightarrow> c)"

text \<open>
  The threads together: the stream thread, gRPC calling back for a call that has not ended, and the
  thread that starts and stops the client (once \<open>Stop\<close> is called, its join follows before another
  call).
\<close>

inductive auth_step :: "'m auth_client \<Rightarrow> 'm auth_client \<Rightarrow> bool" where
  loop: "auth_step c (StreamLoop_step channel_ok stub_ok c)"
| read: "r \<in> calls c \<Longrightarrow> r \<notin> calls_done c \<Longrightarrow> auth_step c (OnReadDone r ok response c)"
| ended: "r \<in> calls c \<Longrightarrow> r \<notin> calls_done c \<Longrightarrow> auth_step c (OnDone r status_is_ok c)"
| start: "stream_thread c = None \<or> ac_running c \<Longrightarrow> auth_step c (Auth_Start c)"
| stop: "auth_step c (Auth_Stop c)"
| join: "auth_step c (Auth_Stop_join c)"
| mode: "auth_step c (Auth_SetMode m c)"

inductive auth_reachable :: "'m auth_client \<Rightarrow> 'm auth_client \<Rightarrow> bool" for c0 where
  init: "auth_reachable c0 c0"
| step: "auth_reachable c0 c \<Longrightarrow> auth_step c d \<Longrightarrow> auth_reachable c0 d"

section \<open>Properties\<close>

text \<open>The reactor the thread holds.\<close>

fun held :: "loop_pc option \<Rightarrow> nat set" where
  "held (Some (Starting r)) = {r}"
| "held (Some (Waiting r)) = {r}"
| "held (Some (Ending r)) = {r}"
| "held (Some (Leaving r)) = {r}"
| "held (Some (Reconnecting r)) = {r}"
| "held _ = {}"

text \<open>Every reactor but the one the thread holds is freed, and only the held one is active.\<close>

definition auth_inv :: "'m auth_client \<Rightarrow> bool" where
  "auth_inv c \<longleftrightarrow>
     (\<forall>r. r < created c \<longleftrightarrow> r \<in> freed c \<or> r \<in> held (stream_thread c)) \<and>
     (\<forall>r \<in> held (stream_thread c). r \<notin> freed c) \<and>
     (\<forall>r. active_reactor c = Some r \<longrightarrow> r \<in> held (stream_thread c) \<and> stream_thread c \<noteq> Some (Reconnecting r)) \<and>
     (ac_running c \<longrightarrow> stream_thread c \<noteq> None \<and> stream_thread c \<noteq> Some AtExit \<and> stream_thread c \<noteq> Some Exited)"

lemma auth_inv_new: "auth_inv (new_AuthClient m)"
  by (simp add: auth_inv_def new_AuthClient_def)

lemma auth_inv_frame:
  assumes "auth_inv c" and "freed d = freed c" "stream_thread d = stream_thread c" "created d = created c"
    and "active_reactor d = active_reactor c" and "ac_running d \<longrightarrow> ac_running c"
  shows "auth_inv d"
  using assms by (simp add: auth_inv_def)

lemma held_lt: "auth_inv c \<Longrightarrow> r \<in> held (stream_thread c) \<Longrightarrow> r < created c \<and> r \<notin> freed c"
  by (auto simp: auth_inv_def)

lemma Reconnect_frame:
  "freed (snd (Reconnect a b c)) = freed c" "stream_thread (snd (Reconnect a b c)) = stream_thread c"
  "created (snd (Reconnect a b c)) = created c" "active_reactor (snd (Reconnect a b c)) = active_reactor c"
  "ac_running (snd (Reconnect a b c)) = ac_running c"
  by (simp_all add: Reconnect_def)

lemma auth_inv_loop: "auth_inv c \<Longrightarrow> auth_inv (StreamLoop_step a b c)"
proof (cases "stream_thread c")
  case (Some pc)
  assume inv: "auth_inv c"
  obtain ok c1 where rc: "Reconnect a b c = (ok, c1)" by fastforce
  note fr = Reconnect_frame [of a b c, unfolded rc snd_conv]
  show ?thesis
  proof (cases pc)
    case AtTop
    with Some inv fr show ?thesis by (auto simp: StreamLoop_step_def Loop_top_def rc auth_inv_def)
  next
    case Creating
    with Some inv show ?thesis
      by (auto simp: StreamLoop_step_def Loop_create_def auth_inv_def less_Suc_eq)
  next
    case (Starting r)
    with Some inv show ?thesis by (auto simp: StreamLoop_step_def Loop_start_def Auth_Reactor_Start_def auth_inv_def)
  next
    case (Waiting r)
    with Some inv show ?thesis by (auto simp: StreamLoop_step_def Loop_wait_def Auth_Reactor_Stop_def auth_inv_def)
  next
    case (Ending r)
    with Some inv show ?thesis by (auto simp: StreamLoop_step_def Loop_end_def auth_inv_def)
  next
    case (Leaving r)
    have A: "\<forall>s. s < created c \<longleftrightarrow> s \<in> freed c \<or> s = r" "r \<notin> freed c" "\<forall>s. active_reactor c = Some s \<longrightarrow> s = r"
      using inv by (simp_all add: auth_inv_def Some Leaving)
    define d where "d = (if active_reactor c = Some r then c\<lparr>active_reactor := None\<rparr> else c)"
    have d: "active_reactor d = None" "freed d = freed c" "created d = created c" "ac_running d = ac_running c"
      using A(3) by (cases "active_reactor c"; simp add: d_def)+
    have s: "StreamLoop_step a b c = (if \<not> ac_running d then d\<lparr>stream_thread := Some AtExit, freed := insert r (freed d)\<rparr>
         else d\<lparr>reconnect_attempts := reconnect_attempts d + 1, stream_thread := Some (Reconnecting r)\<rparr>)"
      by (simp add: StreamLoop_step_def Loop_leave_def d_def Some Leaving)
    show ?thesis unfolding s using A(1,2) d by (simp add: auth_inv_def) blast
  next
    case (Reconnecting r)
    with Some inv fr show ?thesis
      by (auto simp: StreamLoop_step_def Loop_reconnect_def Let_def rc auth_inv_def)
  next
    case AtExit
    with Some inv show ?thesis by (auto simp: StreamLoop_step_def Loop_exit_def auth_inv_def)
  qed (use Some inv in \<open>simp add: StreamLoop_step_def\<close>)
qed (simp add: StreamLoop_step_def)

lemma auth_inv_step: "auth_step c d \<Longrightarrow> auth_inv c \<Longrightarrow> auth_inv d"
proof (induction rule: auth_step.induct)
  case (loop c a b)
  then show ?case by (rule auth_inv_loop)
next
  case (start c)
  then show ?case by (auto simp: Auth_Start_def auth_inv_def)
next
  case (join c)
  then show ?case by (auto simp: Auth_Stop_join_def auth_inv_def)
next
  case (stop c)
  then show ?case
    by (elim auth_inv_frame) (auto simp: Auth_Stop_def Auth_Reactor_Stop_def Let_def split: option.splits)
next
  case (ended r c ok)
  then show ?case
    by (elim auth_inv_frame) (auto simp: OnDone_def NotifyReconnect_def Let_def split: option.splits)
qed (elim auth_inv_frame; auto simp: OnReadDone_def Auth_SetMode_def split: ServerMessage.splits option.splits)+

lemma auth_reachable_inv: "auth_reachable c0 c \<Longrightarrow> auth_inv c0 \<Longrightarrow> auth_inv c"
  by (induction rule: auth_reachable.induct) (auto intro: auth_inv_step)

definition client_with :: "(LicenseResp \<Rightarrow> 'm \<Rightarrow> 'm) \<Rightarrow> (bool \<Rightarrow> 'm \<Rightarrow> 'm) \<Rightarrow> 'm \<Rightarrow> 'm auth_client" where
  "client_with f g m = SetConnectionCallback g (Auth_SetMessageCallback f (new_AuthClient m))"

lemma auth_inv_client_with: "auth_inv (client_with f g m)"
  using auth_inv_frame [OF auth_inv_new [of m], of "client_with f g m"]
  by (simp add: client_with_def SetConnectionCallback_def Auth_SetMessageCallback_def)

text \<open>
  C29. There is never more than one reactor object, and the pointer \<open>Stop\<close> goes through never dangles:
  in every interleaving of the stream thread, gRPC and the calls to start and stop, two reactors
  that are not destroyed are the same, and \<open>active_reactor_\<close> is null or points to it.
\<close>

theorem auth_one_reactor:
  assumes "auth_reachable (client_with f g m) c"
  shows "(\<forall>r s. r < created c \<and> r \<notin> freed c \<and> s < created c \<and> s \<notin> freed c \<longrightarrow> r = s) \<and>
         (\<forall>r. active_reactor c = Some r \<longrightarrow> r < created c \<and> r \<notin> freed c)"
proof -
  have inv: "auth_inv c" by (rule auth_reachable_inv [OF assms auth_inv_client_with])
  have one: "r \<in> held t \<Longrightarrow> s \<in> held t \<Longrightarrow> r = s" for r s t by (cases t rule: held.cases) auto
  show ?thesis using inv one held_lt [OF inv] unfolding auth_inv_def by blast
qed

text \<open>
  C30. The client reconnects: when the stream it waits for ends, with whatever status, seven steps of
  the stream thread later it has destroyed that reactor and waits for a new call, whether or not a
  new channel could be created. The count of attempts grows only while channels fail.
\<close>

theorem auth_reconnects:
  assumes "stream_thread c = Some (Waiting r)" and "ac_running c" and "has_stub c" and "active_reactor c = Some r"
    and "r < created c" and "d = (StreamLoop_step channel_ok True ^^ 7) (OnDone r status_is_ok c)"
  shows "stream_thread d = Some (Waiting (created c)) \<and> active_reactor d = Some (created c) \<and>
         calls d = insert (created c) (calls c) \<and> r \<in> freed d \<and> \<not> reactor_finished d (created c) \<and> ac_running d \<and>
         reconnect_attempts d = (if channel_ok then 0 else Suc (reconnect_attempts c))"
proof -
  define c0 where "c0 = OnDone r status_is_ok c"
  have c0: "stream_thread c0 = Some (Waiting r)" "ac_running c0" "has_stub c0" "active_reactor c0 = Some r"
    "reactor_finished c0 r" "created c0 = created c" "calls c0 = calls c" "reconnect_attempts c0 = reconnect_attempts c"
    using assms(1-4) by (auto simp: c0_def OnDone_def NotifyReconnect_def Let_def split: option.splits)
  note step = StreamLoop_step_def Loop_wait_def Loop_end_def Loop_leave_def Loop_reconnect_def Reconnect_def
    Loop_top_def Loop_create_def Loop_start_def Auth_Reactor_Start_def Let_def
  show ?thesis
    unfolding assms(6) c0_def [symmetric] by (simp add: eval_nat_numeral c0 step)
qed

definition started_client :: "nat auth_client" where
  "started_client = (StreamLoop_step True True ^^ 3) (Auth_Start (client_with (\<lambda>_ n. n) (\<lambda>_ n. Suc n) 0))"

lemma started_client_facts:
  "stream_thread started_client = Some (Waiting 0)" "ac_running started_client" "has_stub started_client"
  "active_reactor started_client = Some 0" "created started_client = 1" "calls started_client = {0}"
  "calls_done started_client = {}" "reconnect_attempts started_client = 0" "freed started_client = {}"
  by (simp_all add: started_client_def Auth_Start_def client_with_def SetConnectionCallback_def Auth_SetMessageCallback_def
      new_AuthClient_def eval_nat_numeral StreamLoop_step_def Loop_top_def Loop_create_def Loop_start_def Auth_Reactor_Start_def)

lemma auth_reachable_steps: "auth_reachable c0 c \<Longrightarrow> auth_reachable c0 ((StreamLoop_step a b ^^ n) c)"
  by (induction n) (auto intro: auth_reachable.step auth_step.loop)

lemma started_reachable: "auth_reachable (client_with (\<lambda>_ n. n) (\<lambda>_ n. Suc n) 0) started_client"
  unfolding started_client_def
  by (intro auth_reachable_steps auth_reachable.step [OF auth_reachable.init] auth_step.start)
     (simp add: client_with_def SetConnectionCallback_def Auth_SetMessageCallback_def new_AuthClient_def)

theorem auth_one_reactor_witness:
  "active_reactor started_client = Some 0 \<and> 0 \<notin> freed started_client"
  using auth_one_reactor [OF started_reachable] started_client_facts(4) by blast

theorem auth_reconnects_witness:
  "stream_thread ((StreamLoop_step False True ^^ 7) (OnDone 0 False started_client)) = Some (Waiting 1)"
  using auth_reconnects [of started_client 0 _ False False, OF _ _ _ _ _ refl] by (simp add: started_client_facts)

text \<open>
  C38. Stopping can destroy a reactor whose call has not ended: there is a run in which \<open>Stop\<close> is
  called while the client waits for its stream, the stream thread leaves its loop, and gRPC has not
  called \<open>OnDone\<close> of the reactor that is destroyed, so that it will still be called on it.
\<close>

theorem auth_stop_frees_pending_reactor:
  "\<exists>c. auth_reachable (client_with (\<lambda>_ n. n) (\<lambda>_ n. Suc n) 0) c \<and> auth_step c (OnDone 0 False c) \<and> 0 \<in> freed c \<and>
       stream_thread c = None"
proof -
  let ?c = "Auth_Stop_join ((StreamLoop_step True True ^^ 4) (Auth_Stop started_client))"
  have r: "auth_reachable (client_with (\<lambda>_ n. n) (\<lambda>_ n. Suc n) 0) ?c"
    by (rule auth_reachable.step [OF auth_reachable_steps [OF auth_reachable.step [OF started_reachable auth_step.stop]]
          auth_step.join])
  have c: "0 \<in> calls ?c" "0 \<notin> calls_done ?c" "0 \<in> freed ?c" "stream_thread ?c = None"
    by (simp_all add: Auth_Stop_def Let_def started_client_facts Auth_Reactor_Stop_def eval_nat_numeral StreamLoop_step_def
        Loop_wait_def Loop_end_def Loop_leave_def Loop_exit_def Auth_Stop_join_def)
  from r auth_step.ended [OF c(1,2), of False] c(3,4) show ?thesis by blast
qed

end
