(* ===== verification/Auth_Manager.thy ===== *)
theory Auth_Manager
  imports Auth_Client Temp_File
begin

text \<open>
  The authorization manager (\<open>source/zurg/auth/auth_manager.cpp\<close>): it keeps the authorization state
  from the license messages of the client and from a file in which the last message is kept, and
  publishes each change on the event bus. The protobuf codec is a parameter (\<open>serialize\<close>, \<open>parse\<close>),
  the dispatcher of the bus another; \<open>now\<close> is the time a call reads. Writing an opened file
  succeeds. Logging is left out.
\<close>

section \<open>State\<close>

text \<open>\<open>am_prog\<close> is the state of the program the listeners of the bus act on.\<close>

record ('d, 's) auth_manager =
  am_mode :: AuthMode
  auth_state :: AuthState
  persistence_file :: string
  am_fs :: fs
  am_bus :: "'d event_bus"
  am_prog :: 's

record codec =
  serialize :: "LicenseResp \<Rightarrow> string option"
  parse :: "string \<Rightarrow> LicenseResp option"

text \<open>The manager's state is what the callbacks of its client act on.\<close>

type_synonym ('d, 's) auth_world = "('d, 's) auth_manager auth_client"

section \<open>Operations\<close>

definition IsAssetValid :: "Asset \<Rightarrow> int \<Rightarrow> bool" where
  "IsAssetValid asset now =
     (if is_expired asset then False
      else if expire_at asset > 0 \<and> now \<ge> expire_at asset then False
      else if remaining_valid_timestamp asset \<le> 0 \<and> expire_at asset = 0 then False
      else True)"

definition UpdateAuthState ::
  "('d, 'h, 's) dispatcher \<Rightarrow> AuthState \<Rightarrow> bool \<Rightarrow> ('d, 's) auth_manager \<Rightarrow> ('d, 's) auth_manager" where
  "UpdateAuthState D new_state force m =
     (let m1 = m\<lparr>auth_state := new_state\<rparr>
      in if force \<or> auth_state m \<noteq> new_state then
           (case Publish D (AuthStateChangedEvent new_state) (am_bus m1) (am_prog m1) of
              (bus, prog) \<Rightarrow> m1\<lparr>am_bus := bus, am_prog := prog\<rparr>)
         else m1)"

definition PersistMessage :: "codec \<Rightarrow> LicenseResp \<Rightarrow> ('d, 's) auth_manager \<Rightarrow> ('d, 's) auth_manager" where
  "PersistMessage cd message m =
     (if persistence_file m = '''' then m
      else
        (case serialize cd message of
           None \<Rightarrow> m
         | Some serialized_data \<Rightarrow>
             (case open_out (am_fs m) (persistence_file m) of
                None \<Rightarrow> m
              | Some (loc, F) \<Rightarrow> m\<lparr>am_fs := append_data loc serialized_data F\<rparr>)))"

definition HandleMessage ::
  "('d, 'h, 's) dispatcher \<Rightarrow> codec \<Rightarrow> int \<Rightarrow> LicenseResp \<Rightarrow> ('d, 's) auth_manager \<Rightarrow> ('d, 's) auth_manager" where
  "HandleMessage D cd now message m =
     (let m1 = PersistMessage cd message m
      in if am_mode m1 = Mode_kOnline then
           (if \<exists>asset \<in> set (assets message). IsAssetValid asset now
            then UpdateAuthState D State_kOnline False m1
            else UpdateAuthState D State_kOffline False m1)
         else m1)"

definition HandleConnection ::
  "('d, 'h, 's) dispatcher \<Rightarrow> bool \<Rightarrow> ('d, 's) auth_manager \<Rightarrow> ('d, 's) auth_manager" where
  "HandleConnection D connected m =
     (if connected then (UpdateAuthState D State_kOnline False m)\<lparr>am_mode := Mode_kOnline\<rparr>
      else
        (let m1 = UpdateAuthState D State_kOffline False m
         in if am_mode m1 = Mode_kOnline then m1\<lparr>am_mode := Mode_kOffline\<rparr> else m1))"

text \<open>What the persistence file says: \<open>None\<close> for a file that is missing, unreadable, empty or no message.\<close>

definition read_persisted :: "codec \<Rightarrow> fs \<Rightarrow> string \<Rightarrow> LicenseResp option" where
  "read_persisted cd F path =
     (case fs_exists F path of
        Inl e \<Rightarrow> None
      | Inr False \<Rightarrow> None
      | Inr True \<Rightarrow>
          (case open_in F path of
             None \<Rightarrow> None
           | Some serialized_data \<Rightarrow> if serialized_data = '''' then None else parse cd serialized_data))"

definition CheckOfflineAuthorization ::
  "('d, 'h, 's) dispatcher \<Rightarrow> codec \<Rightarrow> int \<Rightarrow> ('d, 's) auth_manager \<Rightarrow> bool \<times> ('d, 's) auth_manager" where
  "CheckOfflineAuthorization D cd now m =
     (if persistence_file m = '''' then (False, UpdateAuthState D State_kOffline False m)
      else
        (case read_persisted cd (am_fs m) (persistence_file m) of
           None \<Rightarrow> (False, UpdateAuthState D State_kOffline False m)
         | Some message \<Rightarrow>
             if \<exists>asset \<in> set (assets message). IsAssetValid asset now
             then (True, UpdateAuthState D State_kOnline False m)
             else (False, UpdateAuthState D State_kOffline False m)))"

definition CheckOnlineAuthorization :: "('d, 's) auth_manager \<Rightarrow> bool" where
  "CheckOnlineAuthorization m \<longleftrightarrow> auth_state m = State_kOnline"

definition CheckAuthorization ::
  "('d, 'h, 's) dispatcher \<Rightarrow> codec \<Rightarrow> int \<Rightarrow> ('d, 's) auth_manager \<Rightarrow> bool \<times> ('d, 's) auth_manager" where
  "CheckAuthorization D cd now m =
     (case am_mode m of
        Mode_kOnline \<Rightarrow> (CheckOnlineAuthorization m, m)
      | Mode_kOffline \<Rightarrow> CheckOfflineAuthorization D cd now m
      | Mode_kUnknown \<Rightarrow> (False, m))"

definition SetPersistenceFile :: "string \<Rightarrow> ('d, 's) auth_manager \<Rightarrow> ('d, 's) auth_manager" where
  "SetPersistenceFile path m = m\<lparr>persistence_file := path\<rparr>"

definition AuthManager_SetMode :: "AuthMode \<Rightarrow> ('d, 's) auth_manager \<Rightarrow> ('d, 's) auth_manager" where
  "AuthManager_SetMode mode m = m\<lparr>am_mode := mode\<rparr>"

definition with_owner :: "('m \<Rightarrow> 'm) \<Rightarrow> 'm auth_client \<Rightarrow> 'm auth_client" where
  "with_owner f w = w\<lparr>owner := f (owner w)\<rparr>"

text \<open>The constructor; the time the message callback reads is a parameter of each step below.\<close>

definition new_AuthManager ::
  "('d, 'h, 's) dispatcher \<Rightarrow> fs \<Rightarrow> 'd event_bus \<Rightarrow> 's \<Rightarrow> ('d, 's) auth_world" where
  "new_AuthManager D F bus prog =
     with_owner (UpdateAuthState D State_kUnknown True)
       (SetConnectionCallback (HandleConnection D)
          (new_AuthClient \<lparr>am_mode = Mode_kUnknown, auth_state = State_kUnknown, persistence_file = '''',
             am_fs = F, am_bus = bus, am_prog = prog\<rparr>))"

definition AuthManager_Start ::
  "('d, 'h, 's) dispatcher \<Rightarrow> codec \<Rightarrow> int \<Rightarrow> ('d, 's) auth_world \<Rightarrow> ('d, 's) auth_world" where
  "AuthManager_Start D cd now w =
     (let w1 = (if am_mode (owner w) = Mode_kUnknown then with_owner (AuthManager_SetMode Mode_kOnline) w else w)
      in case am_mode (owner w1) of
           Mode_kOnline \<Rightarrow> Auth_Start w1
         | Mode_kOffline \<Rightarrow> with_owner (\<lambda>m. snd (CheckOfflineAuthorization D cd now m)) w1
         | Mode_kUnknown \<Rightarrow> w1)"

definition AuthManager_Stop :: "('d, 's) auth_world \<Rightarrow> ('d, 's) auth_world" where
  "AuthManager_Stop w = (if am_mode (owner w) = Mode_kOnline then Auth_Stop w else w)"

text \<open>A message of the stream; the callback reads the clock.\<close>

definition receive ::
  "('d, 'h, 's) dispatcher \<Rightarrow> codec \<Rightarrow> int \<Rightarrow> nat \<Rightarrow> bool \<Rightarrow> ServerMessage \<Rightarrow> ('d, 's) auth_world \<Rightarrow> ('d, 's) auth_world" where
  "receive D cd now r ok response w = OnReadDone r ok response (Auth_SetMessageCallback (HandleMessage D cd now) w)"

text \<open>The manager with its client: everything that can happen to them.\<close>

inductive manager_step ::
  "('d, 'h, 's) dispatcher \<Rightarrow> codec \<Rightarrow> ('d, 's) auth_world \<Rightarrow> ('d, 's) auth_world \<Rightarrow> bool" for D cd where
  loop: "manager_step D cd w (StreamLoop_step channel_ok stub_ok w)"
| message: "r \<in> calls w \<Longrightarrow> r \<notin> calls_done w \<Longrightarrow> manager_step D cd w (receive D cd now r ok response w)"
| ended: "r \<in> calls w \<Longrightarrow> r \<notin> calls_done w \<Longrightarrow> manager_step D cd w (OnDone r status_is_ok w)"
| start: "stream_thread w = None \<or> ac_running w \<Longrightarrow> manager_step D cd w (AuthManager_Start D cd now w)"
| stop: "manager_step D cd w (AuthManager_Stop w)"
| join: "manager_step D cd w (Auth_Stop_join w)"
| persist_to: "manager_step D cd w (with_owner (SetPersistenceFile path) w)"
| set_mode: "manager_step D cd w (with_owner (AuthManager_SetMode mode) w)"
| check: "manager_step D cd w (with_owner (\<lambda>m. snd (CheckAuthorization D cd now m)) w)"

inductive manager_reachable ::
  "('d, 'h, 's) dispatcher \<Rightarrow> codec \<Rightarrow> ('d, 's) auth_world \<Rightarrow> ('d, 's) auth_world \<Rightarrow> bool" for D cd w0 where
  init: "manager_reachable D cd w0 w0"
| step: "manager_reachable D cd w0 w \<Longrightarrow> manager_step D cd w v \<Longrightarrow> manager_reachable D cd w0 v"

section \<open>The state and the bus\<close>

text \<open>The last event on the bus tells the state.\<close>

definition announced :: "('d, 's) auth_manager \<Rightarrow> bool" where
  "announced m \<longleftrightarrow> LastEvent (am_bus m) = Some (AuthStateChangedEvent (auth_state m))"

lemma UpdateAuthState_frame [simp]:
  "auth_state (UpdateAuthState D st b m) = st" "am_mode (UpdateAuthState D st b m) = am_mode m"
  "persistence_file (UpdateAuthState D st b m) = persistence_file m" "am_fs (UpdateAuthState D st b m) = am_fs m"
  by (simp_all add: UpdateAuthState_def Let_def split: prod.splits)

lemma announced_update: "b \<or> announced m \<Longrightarrow> announced (UpdateAuthState D st b m)"
  using last_event_remembered [of D "AuthStateChangedEvent st" "am_bus m" "am_prog m"]
  by (auto simp: announced_def UpdateAuthState_def Let_def split: prod.splits)

lemma PersistMessage_frame [simp]:
  "auth_state (PersistMessage cd msg m) = auth_state m" "am_mode (PersistMessage cd msg m) = am_mode m"
  "am_bus (PersistMessage cd msg m) = am_bus m" "persistence_file (PersistMessage cd msg m) = persistence_file m"
  by (auto simp: PersistMessage_def split: option.splits)

lemma announced_frame: "auth_state n = auth_state m \<Longrightarrow> am_bus n = am_bus m \<Longrightarrow> announced n = announced m"
  by (simp add: announced_def)

lemma announced_ops:
  assumes "announced m"
  shows "announced (HandleMessage D cd now msg m)" "announced (HandleConnection D b m)"
    "announced (snd (CheckOfflineAuthorization D cd now m))" "announced (snd (CheckAuthorization D cd now m))"
    "announced (SetPersistenceFile path m)" "announced (AuthManager_SetMode mode m)"
proof -
  have p: "announced (PersistMessage cd msg m)" using assms by (simp add: announced_def)
  have mode: "announced (n\<lparr>am_mode := x\<rparr>) = announced n" for n :: "('d, 's) auth_manager" and x by (simp add: announced_def)
  show "announced (HandleMessage D cd now msg m)"
    using p by (auto simp: HandleMessage_def Let_def intro: announced_update)
  show "announced (HandleConnection D b m)"
    using assms announced_update [of False m] by (auto simp: HandleConnection_def Let_def mode)
  show off: "announced (snd (CheckOfflineAuthorization D cd now m))"
    using assms announced_update [of False m] by (auto simp: CheckOfflineAuthorization_def split: option.splits)
  show "announced (snd (CheckAuthorization D cd now m))"
    using assms off by (simp add: CheckAuthorization_def split: AuthMode.splits)
  show "announced (SetPersistenceFile path m)" "announced (AuthManager_SetMode mode m)"
    using assms by (simp_all add: SetPersistenceFile_def AuthManager_SetMode_def announced_def)
qed

definition world_inv :: "('d, 'h, 's) dispatcher \<Rightarrow> ('d, 's) auth_world \<Rightarrow> bool" where
  "world_inv D w \<longleftrightarrow> announced (owner w) \<and> connection_callback w = Some (HandleConnection D)"

text \<open>The stream thread and the calls to start and stop leave the owner's state alone.\<close>

lemma thread_frame:
  "owner (StreamLoop_step a b w) = owner w \<and> connection_callback (StreamLoop_step a b w) = connection_callback w"
  "owner (Auth_Start w) = owner w \<and> connection_callback (Auth_Start w) = connection_callback w"
  "owner (Auth_Stop w) = owner w \<and> connection_callback (Auth_Stop w) = connection_callback w"
  "owner (Auth_Stop_join w) = owner w \<and> connection_callback (Auth_Stop_join w) = connection_callback w"
proof -
  show "owner (StreamLoop_step a b w) = owner w \<and> connection_callback (StreamLoop_step a b w) = connection_callback w"
    by (cases "stream_thread w"; simp add: StreamLoop_step_def split: loop_pc.split)
       (auto simp: Loop_top_def Loop_create_def Loop_start_def Auth_Reactor_Start_def Loop_wait_def Auth_Reactor_Stop_def
          Loop_end_def Loop_leave_def Loop_reconnect_def Loop_exit_def Reconnect_def Let_def)
qed (auto simp: Auth_Start_def Auth_Stop_def Auth_Stop_join_def Auth_Reactor_Stop_def Let_def split: option.splits)

lemma with_owner_frame [simp]:
  "owner (with_owner f w) = f (owner w)" "connection_callback (with_owner f w) = connection_callback w"
  by (simp_all add: with_owner_def)

lemma world_inv_step: "manager_step D cd w v \<Longrightarrow> world_inv D w \<Longrightarrow> world_inv D v"
proof (induction rule: manager_step.induct)
  case (message r w now ok response)
  then show ?case
    by (auto simp: world_inv_def receive_def OnReadDone_def Auth_SetMessageCallback_def announced_ops split: ServerMessage.splits)
next
  case (ended r w ok)
  then show ?case by (simp add: world_inv_def OnDone_def NotifyReconnect_def Let_def announced_ops)
next
  case (start w now)
  then show ?case
    by (auto simp: world_inv_def AuthManager_Start_def Let_def thread_frame announced_ops split: AuthMode.splits)
next
  case (stop w)
  then show ?case by (simp add: world_inv_def AuthManager_Stop_def thread_frame)
qed (simp_all add: world_inv_def thread_frame announced_ops)

text \<open>
  C26. The bus always tells the truth: in every interleaving of the stream thread, the messages and
  ends of its streams and the calls of the program, the last event published is the manager's
  current state, so whoever asks the bus, however late, sees the state the manager would answer with.
  Each message, each end of a stream and each call is one step.
\<close>

theorem auth_state_announced:
  assumes "manager_reachable D cd (new_AuthManager D F bus prog) w"
  shows "LastEvent (am_bus (owner w)) = Some (AuthStateChangedEvent (auth_state (owner w)))"
proof -
  have "world_inv D w" using assms
  proof (induction rule: manager_reachable.induct)
    case init
    show ?case using announced_update [of True] by (simp add: world_inv_def new_AuthManager_def SetConnectionCallback_def)
  qed (auto intro: world_inv_step)
  then show ?thesis by (simp add: world_inv_def announced_def)
qed

section \<open>The persistence file\<close>

lemma open_out_found:
  assumes "open_out F s = Some (loc, F1)"
  shows "file_status F1 s = Found loc" "nodes F1 loc = Some (File [])" "may_read F1 = may_read F"
proof -
  have "F1 = F\<lparr>nodes := (nodes F)(loc \<mapsto> File [])\<rparr> \<and>
      (file_status F s = Missing loc \<or> file_status F s = Found loc \<and> (\<exists>d. nodes F loc = Some (File d)))"
    using assms by (auto simp: open_out_def split: walk_result.splits if_splits option.splits fs_node.splits)
  then have F1: "F1 = F\<lparr>nodes := (nodes F)(loc \<mapsto> File [])\<rparr>"
    and st: "file_status F s = Missing loc \<or> file_status F s = Found loc \<and> (\<exists>d. nodes F loc = Some (File d))" by blast+
  then show "nodes F1 loc = Some (File [])" "may_read F1 = may_read F" by simp_all
  from st show "file_status F1 s = Found loc"
  proof (elim disjE conjE exE)
    assume "file_status F s = Missing loc"
    then have "open_out F s = Some (loc, F1) \<and> fs_exists F s = Inr False" using assms by (simp add: fs_exists_def)
    then show ?thesis using open_out_then_read(4) by blast
  next
    fix d
    assume f: "file_status F s = Found loc" and "nodes F loc = Some (File d)"
    then have "same_shape F F1" by (auto simp: F1 same_shape_def)
    with f show ?thesis by (simp add: file_status_shape)
  qed
qed


section \<open>After a disconnection\<close>

text \<open>
  C37. A lost connection is never made good by messages: when a stream ends with an error the manager
  goes offline and leaves online mode, and then no sequence of license messages, however valid,
  changes its state or mode again, although the client reconnects and receives them.
\<close>

theorem messages_do_not_restore_online:
  assumes "am_mode m = Mode_kOnline \<or> am_mode m = Mode_kOffline"
  shows "auth_state (fold (\<lambda>(now, msg). HandleMessage D cd now msg) msgs (HandleConnection D False m)) = State_kOffline \<and>
         am_mode (fold (\<lambda>(now, msg). HandleMessage D cd now msg) msgs (HandleConnection D False m)) = Mode_kOffline"
proof -
  have "auth_state (fold (\<lambda>(now, msg). HandleMessage D cd now msg) msgs n) = State_kOffline \<and>
        am_mode (fold (\<lambda>(now, msg). HandleMessage D cd now msg) msgs n) = Mode_kOffline"
    if "auth_state n = State_kOffline" "am_mode n = Mode_kOffline" for n
    using that by (induction msgs arbitrary: n) (auto simp: HandleMessage_def Let_def)
  moreover have "auth_state (HandleConnection D False m) = State_kOffline" "am_mode (HandleConnection D False m) = Mode_kOffline"
    using assms by (auto simp: HandleConnection_def Let_def)
  ultimately show ?thesis by blast
qed

section \<open>Examples\<close>

definition good_asset :: Asset where
  "good_asset = \<lparr>sn = ''1'', asset_name = ''a'', expire_at = 100, is_expired = False, remaining_valid_timestamp = 10, created_at = 0\<rparr>"

definition license :: LicenseResp where
  "license = \<lparr>request_id = ''r'', assets = [good_asset]\<rparr>"

definition tiny_codec :: codec where
  "tiny_codec = \<lparr>serialize = (\<lambda>m. Some ''L''), parse = (\<lambda>s. if s = ''L'' then Some license else None)\<rparr>"

definition quiet_bus :: "(nat \<times> (nat \<times> (AuthStateChangedEvent \<Rightarrow> nat \<Rightarrow> nat)) list) event_bus" where
  "quiet_bus = \<lparr>dispatcher_state = (0, []), last_events = (\<lambda>_. None)\<rparr>"

definition online_manager :: "(nat \<times> (nat \<times> (AuthStateChangedEvent \<Rightarrow> nat \<Rightarrow> nat)) list, nat) auth_manager" where
  "online_manager = \<lparr>am_mode = Mode_kOnline, auth_state = State_kOnline, persistence_file = ''/lic'', am_fs = empty_fs,
     am_bus = quiet_bus, am_prog = 0\<rparr>"

theorem auth_state_announced_witness:
  "LastEvent (am_bus (owner (AuthManager_Start list_dispatcher tiny_codec 0 (new_AuthManager list_dispatcher empty_fs quiet_bus 0)))) =
     Some (AuthStateChangedEvent State_kUnknown)"
proof -
  let ?w = "new_AuthManager list_dispatcher empty_fs quiet_bus (0 :: nat)"
  have "stream_thread ?w = None"
    by (simp add: new_AuthManager_def with_owner_def SetConnectionCallback_def new_AuthClient_def)
  then have "manager_reachable list_dispatcher tiny_codec ?w (AuthManager_Start list_dispatcher tiny_codec 0 ?w)"
    by (blast intro: manager_reachable.intros manager_step.start)
  from auth_state_announced [OF this] show ?thesis
    by (simp add: AuthManager_Start_def new_AuthManager_def with_owner_def SetConnectionCallback_def new_AuthClient_def
          AuthManager_SetMode_def Auth_Start_def)
qed


theorem messages_do_not_restore_online_witness:
  "IsAssetValid good_asset 50 \<and>
   auth_state (HandleMessage list_dispatcher tiny_codec 50 license (HandleConnection list_dispatcher False online_manager)) = State_kOffline"
  using messages_do_not_restore_online [of online_manager list_dispatcher tiny_codec "[(50, license)]"]
  by (simp add: online_manager_def IsAssetValid_def good_asset_def)

end
