(* ===== verification/Logger_Manager.thy ===== *)
theory Logger_Manager
  imports Zurg_Prelude "HOL-Library.AList"
begin

text \<open>
  The registry of loggers (\<open>source/zurg/logger_manager.cpp\<close>). The registry holds weak pointers: a
  logger lives as long as the program holds a reference to it. Loggers are objects of a heap, named
  by addresses that are never used twice; \<open>live\<close> are the ones some reference keeps alive. A sink is
  a number (null is absent). Each operation runs under the registry's mutex.
\<close>

section \<open>State\<close>

datatype level_enum = trace | debug | info | warn | err | critical | off

record logger =
  logger_name :: string
  logger_level :: level_enum
  logger_pattern :: "string option"
  logger_sinks :: "nat list"

record LoggerConfig =
  default_level :: level_enum
  config_pattern :: "string option"

definition default_LoggerConfig :: LoggerConfig where
  "default_LoggerConfig = \<lparr>default_level = info, config_pattern = None\<rparr>"

record LoggerInfo =
  li_name :: string
  li_level :: level_enum
  li_active :: bool

text \<open>\<open>loggers\<close> is the unordered map in some order of its entries.\<close>

record registry =
  sinks :: "nat list"
  loggers :: "(string \<times> nat) list"
  pending_levels :: "string \<rightharpoonup> level_enum"
  config :: LoggerConfig
  initialized :: bool
  shutting_down :: bool
  objects :: "nat \<Rightarrow> logger"
  next_object :: nat
  live :: "nat set"

definition initial_registry :: registry where
  "initial_registry = \<lparr>sinks = [], loggers = [], pending_levels = (\<lambda>_. None), config = default_LoggerConfig,
     initialized = False, shutting_down = False, objects = (\<lambda>_. \<lparr>logger_name = '''', logger_level = info,
     logger_pattern = None, logger_sinks = []\<rparr>), next_object = 0, live = {}\<rparr>"

section \<open>Operations\<close>

definition cleanup_expired_locked :: "registry \<Rightarrow> registry" where
  "cleanup_expired_locked st = st\<lparr>loggers := filter (\<lambda>(name, p). p \<in> live st) (loggers st)\<rparr>"

text \<open>The logger a name leads to, if it is alive.\<close>

definition lookup_live :: "registry \<Rightarrow> string \<Rightarrow> nat option" where
  "lookup_live st name =
     (case map_of (loggers st) name of
        Some p \<Rightarrow> if p \<in> live st then Some p else None
      | None \<Rightarrow> None)"

text \<open>Called by the deleter of \<open>ptr\<close>, whose weak pointer has expired by then.\<close>

definition remove_logger_internal :: "string \<Rightarrow> nat \<Rightarrow> registry \<Rightarrow> registry" where
  "remove_logger_internal name ptr st =
     (case map_of (loggers st) name of
        None \<Rightarrow> st
      | Some p \<Rightarrow>
          if p \<in> live st \<and> p \<noteq> ptr then st
          else st\<lparr>loggers := AList.delete name (loggers st)\<rparr>)"

text \<open>The last reference to a logger goes away.\<close>

definition release :: "nat \<Rightarrow> registry \<Rightarrow> registry" where
  "release p st =
     (if p \<in> live st then remove_logger_internal (logger_name (objects st p)) p (st\<lparr>live := live st - {p}\<rparr>) else st)"

definition update_object :: "nat \<Rightarrow> (logger \<Rightarrow> logger) \<Rightarrow> registry \<Rightarrow> registry" where
  "update_object p f st = st\<lparr>objects := (objects st)(p := f (objects st p))\<rparr>"

text \<open>Applying a change to every live logger of the map.\<close>

definition update_loggers :: "(logger \<Rightarrow> logger) \<Rightarrow> registry \<Rightarrow> registry" where
  "update_loggers f st =
     fold (\<lambda>(name, p) st. if p \<in> live st then update_object p f st else st) (loggers st) st"

definition make_logger_locked :: "string \<Rightarrow> registry \<Rightarrow> nat \<times> registry" where
  "make_logger_locked name st =
     (case lookup_live st name of
        Some existing \<Rightarrow> (existing, st)
      | None \<Rightarrow>
          (let p = next_object st;
               pending = pending_levels st name;
               level = (case pending of None \<Rightarrow> default_level (config st) | Some l \<Rightarrow> l);
               created = \<lparr>logger_name = name, logger_level = level, logger_pattern = config_pattern (config st),
                          logger_sinks = sinks st\<rparr>
           in (p, st\<lparr>pending_levels := (if pending \<noteq> None then (pending_levels st)(name := None) else pending_levels st),
                     objects := (objects st)(p := created), next_object := Suc p, live := insert p (live st),
                     loggers := AList.update name p (loggers st)\<rparr>)))"

definition init :: "LoggerConfig \<Rightarrow> registry \<Rightarrow> registry" where
  "init cfg st =
     (let st1 = cleanup_expired_locked (st\<lparr>config := cfg, initialized := True, shutting_down := False\<rparr>)
      in update_loggers (\<lambda>l. l\<lparr>logger_level := default_level cfg,
                               logger_pattern := (case config_pattern cfg of Some p \<Rightarrow> Some p | None \<Rightarrow> logger_pattern l)\<rparr>) st1)"

definition add_sink :: "nat option \<Rightarrow> registry \<Rightarrow> registry" where
  "add_sink sink st =
     (case sink of
        None \<Rightarrow> st
      | Some k \<Rightarrow>
          if shutting_down st then st
          else update_loggers (\<lambda>l. l\<lparr>logger_sinks := logger_sinks l @ [k]\<rparr>)
                 (cleanup_expired_locked (st\<lparr>sinks := sinks st @ [k]\<rparr>)))"

definition get_logger :: "string \<Rightarrow> registry \<Rightarrow> nat option \<times> registry" where
  "get_logger name st =
     (if shutting_down st then (None, st)
      else (case make_logger_locked name (cleanup_expired_locked st) of (p, st1) \<Rightarrow> (Some p, st1)))"

definition set_level :: "string \<Rightarrow> level_enum \<Rightarrow> registry \<Rightarrow> registry" where
  "set_level name level st =
     (if shutting_down st then st
      else
        (let st1 = cleanup_expired_locked st
         in case lookup_live st1 name of
              Some p \<Rightarrow> update_object p (\<lambda>l. l\<lparr>logger_level := level\<rparr>) st1
            | None \<Rightarrow> st1\<lparr>pending_levels := (pending_levels st1)(name \<mapsto> level)\<rparr>))"

definition list_loggers :: "registry \<Rightarrow> LoggerInfo list \<times> registry" where
  "list_loggers st =
     (let st1 = cleanup_expired_locked st
      in (map (\<lambda>(name, p). if p \<in> live st1 then \<lparr>li_name = name, li_level = logger_level (objects st1 p), li_active = True\<rparr>
                           else \<lparr>li_name = name, li_level = info, li_active = False\<rparr>) (loggers st1), st1))"

definition shutdown :: "registry \<Rightarrow> registry" where
  "shutdown st = st\<lparr>loggers := [], pending_levels := (\<lambda>_. None), sinks := [], initialized := False, shutting_down := True,
     config := default_LoggerConfig\<rparr>"

inductive registry_step :: "registry \<Rightarrow> registry \<Rightarrow> bool" where
  init: "registry_step st (init cfg st)"
| add_sink: "registry_step st (add_sink sink st)"
| get_logger: "registry_step st (snd (get_logger name st))"
| set_level: "registry_step st (set_level name level st)"
| list_loggers: "registry_step st (snd (list_loggers st))"
| shutdown: "registry_step st (shutdown st)"
| release: "registry_step st (release p st)"

inductive registry_reachable :: "registry \<Rightarrow> bool" where
  start: "registry_reachable initial_registry"
| step: "registry_reachable st \<Longrightarrow> registry_step st st' \<Longrightarrow> registry_reachable st'"

section \<open>The invariant\<close>

text \<open>
  Names are unique, an entry leads to the logger of that name, every registered live logger writes to
  exactly the registry's sinks, and a level is pending only for names without a live logger.
\<close>

definition registry_inv :: "registry \<Rightarrow> bool" where
  "registry_inv st \<longleftrightarrow>
     distinct (map fst (loggers st)) \<and>
     (\<forall>(name, p) \<in> set (loggers st). p < next_object st \<and> logger_name (objects st p) = name) \<and>
     (\<forall>(name, p) \<in> set (loggers st). p \<in> live st \<longrightarrow> logger_sinks (objects st p) = sinks st \<and> pending_levels st name = None) \<and>
     (\<forall>p \<in> live st. p < next_object st)"

lemma registry_invI:
  assumes "distinct (map fst (loggers st))"
    and "\<And>n p. (n, p) \<in> set (loggers st) \<Longrightarrow> p < next_object st \<and> logger_name (objects st p) = n"
    and "\<And>n p. (n, p) \<in> set (loggers st) \<Longrightarrow> p \<in> live st \<Longrightarrow> logger_sinks (objects st p) = sinks st \<and> pending_levels st n = None"
    and "\<And>p. p \<in> live st \<Longrightarrow> p < next_object st"
  shows "registry_inv st"
  unfolding registry_inv_def using assms by blast

lemma registry_invD:
  assumes "registry_inv st"
  shows "distinct (map fst (loggers st))"
    and "(n, p) \<in> set (loggers st) \<Longrightarrow> p < next_object st \<and> logger_name (objects st p) = n"
    and "(n, p) \<in> set (loggers st) \<Longrightarrow> p \<in> live st \<Longrightarrow> logger_sinks (objects st p) = sinks st \<and> pending_levels st n = None"
    and "p \<in> live st \<Longrightarrow> p < next_object st"
  using assms unfolding registry_inv_def by blast+

lemma registry_inv_initial: "registry_inv initial_registry"
  by (simp add: registry_inv_def initial_registry_def)

lemma cleanup_frame [simp]:
  "sinks (cleanup_expired_locked st) = sinks st" "pending_levels (cleanup_expired_locked st) = pending_levels st"
  "config (cleanup_expired_locked st) = config st" "objects (cleanup_expired_locked st) = objects st"
  "next_object (cleanup_expired_locked st) = next_object st" "live (cleanup_expired_locked st) = live st"
  "shutting_down (cleanup_expired_locked st) = shutting_down st"
  "loggers (cleanup_expired_locked st) = filter (\<lambda>(name, p). p \<in> live st) (loggers st)"
  by (simp_all add: cleanup_expired_locked_def)

lemma registry_inv_cleanup: "registry_inv st \<Longrightarrow> registry_inv (cleanup_expired_locked st)"
  by (rule registry_invI) (auto dest: registry_invD intro: distinct_map_filter)

lemma update_entry: "(n, q) \<in> set (AList.update k v al) \<Longrightarrow> distinct (map fst al) \<Longrightarrow> (n, q) = (k, v) \<or> (n, q) \<in> set al \<and> n \<noteq> k"
proof -
  assume "(n, q) \<in> set (AList.update k v al)" and d: "distinct (map fst al)"
  then have "map_of (AList.update k v al) n = Some q" by (simp add: distinct_update map_of_eq_Some_iff)
  then show ?thesis by (auto simp: update_conv' dest: map_of_SomeD split: if_splits)
qed

lemma lookup_live_entry: "lookup_live st name = Some p \<Longrightarrow> (name, p) \<in> set (loggers st) \<and> p \<in> live st"
  by (auto simp: lookup_live_def dest: map_of_SomeD split: option.splits if_splits)

lemma lookup_live_iff:
  assumes "registry_inv st"
  shows "lookup_live st name = Some p \<longleftrightarrow> (name, p) \<in> set (loggers st) \<and> p \<in> live st"
proof -
  have "map_of (loggers st) name = Some q \<longleftrightarrow> (name, q) \<in> set (loggers st)" for q
    by (rule map_of_eq_Some_iff [OF registry_invD(1) [OF assms]])
  note m = this
  have "lookup_live st name = Some p \<longleftrightarrow> map_of (loggers st) name = Some p \<and> p \<in> live st"
    unfolding lookup_live_def by (cases "map_of (loggers st) name") auto
  then show ?thesis by (simp only: m)
qed

lemma lookup_live_cleanup: "registry_inv st \<Longrightarrow> lookup_live (cleanup_expired_locked st) name = lookup_live st name"
proof -
  assume inv: "registry_inv st"
  have "lookup_live (cleanup_expired_locked st) name = Some p \<longleftrightarrow> lookup_live st name = Some p" for p
    by (auto simp: lookup_live_iff [OF inv] lookup_live_iff [OF registry_inv_cleanup [OF inv]])
  then show ?thesis by (metis option.exhaust)
qed

text \<open>What a change to the live loggers of the map does to each object.\<close>

lemma update_fold:
  assumes "distinct (map fst es)" and "\<forall>(name, p) \<in> set es. logger_name (objects st p) = name"
    and keep: "\<And>l. logger_name (f l) = logger_name l"
  shows "fold (\<lambda>(name, p) st. if p \<in> live st then update_object p f st else st) es st =
           st\<lparr>objects := (\<lambda>p. if p \<in> live st \<and> p \<in> snd ` set es then f (objects st p) else objects st p)\<rparr>"
  using assms(1,2)
proof (induction es arbitrary: st)
  case (Cons e es)
  obtain name p where e: "e = (name, p)" by fastforce
  have p: "p \<notin> snd ` set es" using Cons.prems by (force simp: e)
  let ?st = "if p \<in> live st then update_object p f st else st"
  have "\<forall>(name, q) \<in> set es. logger_name (objects ?st q) = name"
    using Cons.prems(2) keep by (auto simp: update_object_def e)
  with Cons.IH [of ?st] Cons.prems(1)
  have "fold (\<lambda>(name, p) st. if p \<in> live st then update_object p f st else st) es ?st =
      ?st\<lparr>objects := (\<lambda>q. if q \<in> live ?st \<and> q \<in> snd ` set es then f (objects ?st q) else objects ?st q)\<rparr>"
    by (simp add: e)
  then show ?case using p by (auto simp: e update_object_def fun_eq_iff intro!: registry.equality)
qed simp

lemma update_loggers_eq:
  assumes "registry_inv st" and "\<And>l. logger_name (f l) = logger_name l"
  shows "update_loggers f st =
     st\<lparr>objects := (\<lambda>p. if p \<in> live st \<and> p \<in> snd ` set (loggers st) then f (objects st p) else objects st p)\<rparr>"
  unfolding update_loggers_def by (rule update_fold) (use assms in \<open>auto simp: registry_inv_def\<close>)

lemma registry_inv_frame:
  assumes "registry_inv st" and "loggers st' = loggers st" "next_object st' = next_object st" "live st' = live st"
    "sinks st' = sinks st" "objects st' = objects st" "pending_levels st' = pending_levels st"
  shows "registry_inv st'"
  using assms(1) by (simp add: registry_inv_def assms(2-))

lemma registry_inv_init: "registry_inv st \<Longrightarrow> registry_inv (init cfg st)"
proof -
  assume inv: "registry_inv st"
  let ?st = "cleanup_expired_locked (st\<lparr>config := cfg, initialized := True, shutting_down := False\<rparr>)"
  have c: "registry_inv ?st" by (rule registry_inv_cleanup [OF registry_inv_frame [OF inv]]) simp_all
  show ?thesis
    unfolding init_def Let_def
  proof (subst update_loggers_eq [OF c], simp, rule registry_invI, goal_cases)
    case 1
    show ?case using registry_invD(1) [OF c] by simp
  next
    case (2 n p)
    then show ?case using registry_invD(2) [OF c, of n p] by simp
  next
    case (3 n p)
    then show ?case using registry_invD(3) [OF c, of n p] by simp
  next
    case (4 p)
    then show ?case using registry_invD(4) [OF c, of p] by simp
  qed
qed

lemma registry_inv_add_sink: "registry_inv st \<Longrightarrow> registry_inv (add_sink sink st)"
proof (cases sink)
  case (Some k)
  assume inv: "registry_inv st"
  let ?d = "cleanup_expired_locked (st\<lparr>sinks := sinks st @ [k]\<rparr>)" and ?f = "\<lambda>l. l\<lparr>logger_sinks := logger_sinks l @ [k]\<rparr>"
  have e: "update_loggers ?f ?d = ?d\<lparr>objects := (\<lambda>p. if p \<in> live ?d \<and> p \<in> snd ` set (loggers ?d) then ?f (objects ?d p) else objects ?d p)\<rparr>"
    unfolding update_loggers_def
    by (rule update_fold) (use registry_invD(1,2) [OF inv] in \<open>auto intro: distinct_map_filter\<close>)
  have "registry_inv (update_loggers ?f ?d)"
    unfolding e
  proof (rule registry_invI, goal_cases)
    case 1
    show ?case using registry_invD(1) [OF inv] by (simp add: distinct_map_filter)
  next
    case (2 n p)
    then show ?case using registry_invD(2) [OF inv, of n p] by auto
  next
    case (3 n p)
    then have "(n, p) \<in> set (loggers st)" "p \<in> live st" "p \<in> snd ` set (loggers ?d)" by force+
    then show ?case using registry_invD(3) [OF inv, of n p] by simp
  next
    case (4 p)
    then show ?case using registry_invD(4) [OF inv, of p] by simp
  qed
  then show ?thesis using inv by (simp add: add_sink_def Some)
qed (simp add: add_sink_def)

lemma make_logger_new:
  assumes "lookup_live st name = None" and "d = snd (make_logger_locked name st)" and "p = next_object st"
  shows "loggers d = AList.update name p (loggers st)" "live d = insert p (live st)" "next_object d = Suc p"
    "sinks d = sinks st" "pending_levels d = (pending_levels st)(name := None)"
    "objects d p = \<lparr>logger_name = name, logger_level = (case pending_levels st name of None \<Rightarrow> default_level (config st) | Some l \<Rightarrow> l),
       logger_pattern = config_pattern (config st), logger_sinks = sinks st\<rparr>"
    "q \<noteq> p \<Longrightarrow> objects d q = objects st q" "fst (make_logger_locked name st) = p"
  using assms by (auto simp: make_logger_locked_def Let_def)

lemma registry_inv_make_logger: "registry_inv st \<Longrightarrow> registry_inv (snd (make_logger_locked name st))"
proof (cases "lookup_live st name")
  case None
  assume inv: "registry_inv st"
  define d where "d = snd (make_logger_locked name st)"
  define p where "p = next_object st"
  note d = make_logger_new [OF None d_def p_def]
  have entry: "(n, q) = (name, p) \<or> ((n, q) \<in> set (loggers st) \<and> n \<noteq> name \<and> q < p \<and> objects d q = objects st q)"
    if "(n, q) \<in> set (loggers d)" for n q
    using update_entry [OF that [unfolded d(1)] registry_invD(1) [OF inv]] registry_invD(2) [OF inv, of n q] d(7) [of q] p_def
    by auto
  have "registry_inv d"
  proof (rule registry_invI, goal_cases)
    case 1
    show ?case unfolding d(1) by (rule distinct_update [OF registry_invD(1) [OF inv]])
  next
    case (2 n q)
    from entry [OF 2] registry_invD(2) [OF inv, of n q] show ?case by (auto simp: d(3,6))
  next
    case (3 n q)
    from entry [OF 3(1)] 3(2) registry_invD(3) [OF inv, of n q] show ?case by (auto simp: d(2,4,5,6))
  next
    case (4 q)
    then show ?case using registry_invD(4) [OF inv, of q] by (auto simp: d(2,3) p_def)
  qed
  then show ?thesis by (simp add: d_def)
qed (simp add: make_logger_locked_def)

lemma update_object_frame [simp]:
  "sinks (update_object p f st) = sinks st" "shutting_down (update_object p f st) = shutting_down st"
  by (simp_all add: update_object_def)

lemma update_loggers_sinks [simp]:
  "sinks (update_loggers f st) = sinks st" "shutting_down (update_loggers f st) = shutting_down st"
proof -
  have "sinks (fold (\<lambda>(name, p) st. if p \<in> live st then update_object p f st else st) es st) = sinks st \<and>
        shutting_down (fold (\<lambda>(name, p) st. if p \<in> live st then update_object p f st else st) es st) = shutting_down st"
    for es :: "(string \<times> nat) list"
    by (induction es arbitrary: st) (simp_all add: split_beta)
  then show "sinks (update_loggers f st) = sinks st" "shutting_down (update_loggers f st) = shutting_down st"
    by (simp_all add: update_loggers_def)
qed

lemma init_sinks [simp]: "sinks (init cfg st) = sinks st" "\<not> shutting_down (init cfg st)"
  by (simp_all add: init_def Let_def)

lemma add_sink_sinks:
  "sinks (add_sink sink st) = (case sink of None \<Rightarrow> sinks st | Some k \<Rightarrow> if shutting_down st then sinks st else sinks st @ [k])"
  "shutting_down (add_sink sink st) = shutting_down st"
  by (simp_all add: add_sink_def split: option.split)

lemma make_logger_sinks:
  assumes "registry_inv st" and "make_logger_locked name st = (p, st1)"
  shows "logger_sinks (objects st1 p) = sinks st"
proof (cases "lookup_live st name")
  case None
  then show ?thesis using make_logger_new(6,8) [OF None refl refl] assms(2) by simp
next
  case (Some q)
  then have "p = q" "st1 = st" using assms(2) by (simp_all add: make_logger_locked_def)
  with lookup_live_entry [OF Some] show ?thesis using registry_invD(3) [OF assms(1), of name q] by simp
qed

lemma registry_inv_set_level: "registry_inv st \<Longrightarrow> registry_inv (set_level name level st)"
proof -
  assume st: "registry_inv st"
  let ?st = "cleanup_expired_locked st"
  have inv: "registry_inv ?st" by (rule registry_inv_cleanup [OF st])
  show ?thesis
  proof (cases "lookup_live ?st name")
    case None
    then have "(name, p) \<in> set (loggers ?st) \<Longrightarrow> p \<notin> live ?st" for p using lookup_live_iff [OF inv, of name p] by simp
    with registry_invD [OF inv] have "registry_inv (?st\<lparr>pending_levels := (pending_levels ?st)(name \<mapsto> level)\<rparr>)"
      by (intro registry_invI) auto
    with None st show ?thesis by (simp add: set_level_def Let_def)
  next
    case (Some p)
    from registry_invD [OF inv] have "registry_inv (update_object p (\<lambda>l. l\<lparr>logger_level := level\<rparr>) ?st)"
      by (intro registry_invI) (auto simp: update_object_def)
    with Some st show ?thesis by (simp add: set_level_def Let_def)
  qed
qed

lemma registry_inv_release: "registry_inv st \<Longrightarrow> registry_inv (release p st)"
proof -
  assume inv: "registry_inv st"
  have l: "registry_inv (st\<lparr>live := live st - {p}\<rparr>)"
    using registry_invD [OF inv] by (intro registry_invI) auto
  then have "registry_inv ((st\<lparr>live := live st - {p}\<rparr>)\<lparr>loggers := AList.delete n (loggers st)\<rparr>)" for n
    using registry_invD [OF l] by (intro registry_invI) (auto simp: AList.delete_eq intro: distinct_map_filter)
  with inv l show ?thesis by (auto simp: release_def remove_logger_internal_def split: option.splits)
qed

lemma registry_inv_step: "registry_step st st' \<Longrightarrow> registry_inv st \<Longrightarrow> registry_inv st'"
proof (induction rule: registry_step.induct)
  case (get_logger st name)
  then show ?case
    using registry_inv_make_logger [OF registry_inv_cleanup [of st], of name] by (auto simp: get_logger_def split: prod.splits)
next
  case (list_loggers st)
  then show ?case by (simp add: list_loggers_def Let_def registry_inv_cleanup)
next
  case (shutdown st)
  then show ?case by (simp add: shutdown_def registry_inv_def)
qed (simp_all add: registry_inv_init registry_inv_add_sink registry_inv_set_level registry_inv_release)

lemma registry_reachable_inv: "registry_reachable st \<Longrightarrow> registry_inv st"
  by (induction rule: registry_reachable.induct) (auto intro: registry_inv_initial registry_inv_step)

section \<open>Properties\<close>

text \<open>
  C32. All loggers share the sinks: whatever has been done, in whatever order, a logger the registry
  knows and some reference keeps alive carries the name it is known under and writes to exactly the
  registry's sinks, those added before it was created and those added since.
\<close>

theorem loggers_share_sinks:
  assumes "registry_reachable st" and "lookup_live st name = Some p"
  shows "logger_name (objects st p) = name \<and> logger_sinks (objects st p) = sinks st"
  using registry_invD(2,3) [OF registry_reachable_inv [OF assms(1)], of name p] lookup_live_entry [OF assms(2)] by simp

text \<open>
  A level holds however early it is set: after \<open>set_level\<close> the logger of that name has that level,
  be it one that existed, which then is the one returned, or one created by this very request; and
  asking again gives the same logger.
\<close>

lemma set_level_takes_effect:
  assumes "registry_reachable st" and "\<not> shutting_down st" and "get_logger name (set_level name lv st) = (r, st1)"
  shows "\<exists>p. r = Some p \<and> logger_level (objects st1 p) = lv \<and> fst (get_logger name st1) = Some p \<and>
             (\<forall>q. lookup_live st name = Some q \<longrightarrow> p = q)"
proof -
  note inv = registry_reachable_inv [OF assms(1)]
  let ?a = "set_level name lv st"
  let ?b = "cleanup_expired_locked ?a"
  have inva: "registry_inv ?a" by (rule registry_inv_set_level [OF inv])
  have invb: "registry_inv ?b" by (rule registry_inv_cleanup [OF inva])
  have run: "\<not> shutting_down ?a" using assms(2) by (simp add: set_level_def Let_def update_object_def split: option.split)
  obtain p where p: "make_logger_locked name ?b = (p, st1)" "r = Some p"
    using assms(3) run by (auto simp: get_logger_def split: prod.splits)
  have lk: "lookup_live ?a name = lookup_live st name" and
    lev: "\<And>q. lookup_live st name = Some q \<Longrightarrow> logger_level (objects ?a q) = lv" and
    pend: "lookup_live st name = None \<Longrightarrow> pending_levels ?a name = Some lv"
    using assms(2) lookup_live_cleanup [OF inv, of name]
    by (auto simp: set_level_def Let_def update_object_def lookup_live_def split: option.splits if_splits)
  have lkb: "lookup_live ?b name = lookup_live st name" using lookup_live_cleanup [OF inva, of name] lk by simp
  have inv1: "registry_inv st1" using registry_inv_make_logger [OF invb, of name] p(1) by simp
  have "shutting_down st1 = shutting_down ?b" using p(1) by (auto simp: make_logger_locked_def Let_def split: option.splits)
  then have run1: "\<not> shutting_down st1" using run by simp
  have again: "fst (get_logger name st1) = Some p" if "lookup_live st1 name = Some p"
    using that run1 lookup_live_cleanup [OF inv1, of name] by (simp add: get_logger_def make_logger_locked_def)
  show ?thesis
  proof (cases "lookup_live st name")
    case None
    note d = make_logger_new [OF _ _ refl, of ?b name st1]
    have n: "lookup_live ?b name = None" using lkb None by simp
    have "p = next_object ?b" "logger_level (objects st1 p) = lv" "lookup_live st1 name = Some p"
      using d(1,2,6,8) n p(1) pend [OF None] by (auto simp: lookup_live_def update_conv')
    with again p(2) None show ?thesis by simp
  next
    case (Some q)
    with lkb p(1) have "p = q" "st1 = ?b" by (auto simp: make_logger_locked_def)
    with again lkb Some lev p(2) show ?thesis by simp
  qed
qed

text \<open>
  Losing a logger affects no other: when the last reference to a logger goes away, exactly the
  name that led to it is free again, and every other name, in particular one that has been given to
  a newer logger since, leads where it led before.
\<close>

lemma release_frees_only_its_name:
  assumes "registry_reachable st"
  shows "lookup_live (release p st) n = (if lookup_live st n = Some p then None else lookup_live st n)"
proof -
  note inv = registry_reachable_inv [OF assms]
  have uniq: "x = y" if "(k, x) \<in> set (loggers st)" "(k, y) \<in> set (loggers st)" for k x y
    using that map_of_eq_Some_iff [OF registry_invD(1) [OF inv]] by (metis option.inject)
  have entries: "(n, q) \<in> set (loggers (release p st)) \<and> q \<in> live (release p st) \<longleftrightarrow>
      (n, q) \<in> set (loggers st) \<and> q \<in> live st \<and> q \<noteq> p" for q
  proof (cases "p \<in> live st")
    case live: True
    let ?k = "logger_name (objects st p)"
    show ?thesis
    proof (cases "\<exists>x. map_of (loggers st) ?k = Some x \<and> \<not> (x \<in> live st \<and> x \<noteq> p)")
      case True
      then obtain x where x: "map_of (loggers st) ?k = Some x" "\<not> (x \<in> live st \<and> x \<noteq> p)" by blast
      then have "release p st = st\<lparr>live := live st - {p}, loggers := AList.delete ?k (loggers st)\<rparr>"
        using live by (auto simp: release_def remove_logger_internal_def)
      moreover have "n \<noteq> ?k" if "(n, q) \<in> set (loggers st)" "q \<in> live st" "q \<noteq> p"
        using uniq [OF that(1), of x] x map_of_SomeD [OF x(1)] that by auto
      ultimately show ?thesis by (auto simp: AList.delete_eq)
    next
      case False
      then have "release p st = st\<lparr>live := live st - {p}\<rparr>"
        using live by (auto simp: release_def remove_logger_internal_def split: option.split)
      then show ?thesis by auto
    qed
  qed (auto simp: release_def)
  have found: "lookup_live (release p st) n = Some q \<longleftrightarrow> lookup_live st n = Some q \<and> q \<noteq> p" for q
    using entries [of q] lookup_live_iff [OF inv, of n q] lookup_live_iff [OF registry_inv_release [OF inv], of p n q]
    by argo
  show ?thesis
  proof (cases "lookup_live (release p st) n")
    case None
    with found have "lookup_live st n = Some q \<Longrightarrow> q = p" for q by (metis option.distinct(1))
    with None show ?thesis by (metis option.exhaust)
  next
    case (Some q)
    with found [of q] show ?thesis by simp
  qed
qed

text \<open>An example: a level set before the logger exists, and a sink added after.\<close>

definition early_level :: registry where
  "early_level = add_sink (Some 5) (snd (get_logger ''net'' (set_level ''net'' debug initial_registry)))"

lemma early_level_reachable: "registry_reachable early_level"
  unfolding early_level_def
  by (rule registry_reachable.step [OF registry_reachable.step [OF registry_reachable.step [OF registry_reachable.start
        registry_step.set_level] registry_step.get_logger] registry_step.add_sink])

lemma early_level_net: "lookup_live early_level ''net'' = Some 0" "\<not> shutting_down early_level"
  by (simp_all add: early_level_def add_sink_def get_logger_def set_level_def make_logger_locked_def lookup_live_def Let_def
      initial_registry_def cleanup_expired_locked_def update_loggers_def update_object_def)

theorem loggers_share_sinks_witness: "logger_sinks (objects early_level 0) = sinks early_level"
  using loggers_share_sinks [OF early_level_reachable early_level_net(1)] by simp

lemma set_level_takes_effect_example:
  "\<exists>p st1. get_logger ''net'' (set_level ''net'' warn early_level) = (Some p, st1) \<and> logger_level (objects st1 p) = warn \<and> p = 0"
proof -
  obtain r st1 where r: "get_logger ''net'' (set_level ''net'' warn early_level) = (r, st1)" by fastforce
  from set_level_takes_effect [OF early_level_reachable early_level_net(2) r] r early_level_net(1) show ?thesis by auto
qed

lemma release_frees_only_its_name_example:
  "lookup_live (release 0 early_level) ''net'' = None"
  using release_frees_only_its_name [OF early_level_reachable, of 0 "''net''"] by (simp add: early_level_net)

end
