(* ===== verification/Agent_Main.thy ===== *)
theory Agent_Main
  imports Agent_Properties Agent_Runtime Auth_Manager Logger_Manager
begin

text \<open>
  The program \<open>GnoiAgent\<close> (\<open>standalone/source/agent_main.cpp\<close>) and the agent's logger
  (\<open>GetLogger\<close> of \<open>standalone/source/agent/agent_impl.cpp\<close>): reading the configuration file, applying
  it, setting up the log file and the authorization, and running the agent. yaml-cpp, the rotating
  file sink and the clock are parameters; what is printed is left out except the authorization's
  status line.
\<close>

section \<open>The configuration\<close>

definition ToLowerCopy :: "string \<Rightarrow> string" where
  "ToLowerCopy value = map tolower value"

fun AuthModeName :: "AuthMode \<Rightarrow> string" where
  "AuthModeName Mode_kOnline = ''online''"
| "AuthModeName Mode_kOffline = ''offline''"
| "AuthModeName Mode_kUnknown = ''unknown''"

record LoggingConfig =
  lc_file :: string
  max_files :: nat
  max_size_bytes :: nat

definition default_LoggingConfig :: LoggingConfig where
  "default_LoggingConfig = \<lparr>lc_file = '''', max_files = 5, max_size_bytes = 10 * 1024 * 1024\<rparr>"

record AuthConfig =
  auth_enabled :: bool
  auth_server :: string
  auth_persistence_file :: string
  auth_mode :: string

definition default_AuthConfig :: AuthConfig where
  "default_AuthConfig = \<lparr>auth_enabled = False, auth_server = '''', auth_persistence_file = '''', auth_mode = ''''\<rparr>"

record AgentConfig =
  features :: "FeatureToggles option"
  logging :: "LoggingConfig option"
  log_filter :: "LogOptions option"
  auth :: "AuthConfig option"

definition no_config :: AgentConfig where
  "no_config = \<lparr>features = None, logging = None, log_filter = None, auth = None\<rparr>"

text \<open>
  What the code uses of yaml-cpp on nodes \<open>'n\<close>: loading a file and taking a member can throw, with
  a message; a conversion with a fallback gives the fallback if the node is undefined or does not
  convert.
\<close>

record 'n yaml =
  LoadFile :: "string \<Rightarrow> string + 'n"
  subscript :: "'n \<Rightarrow> string \<Rightarrow> string + 'n"
  is_defined :: "'n \<Rightarrow> bool"
  as_bool :: "'n \<Rightarrow> bool \<Rightarrow> bool"
  as_string :: "'n \<Rightarrow> string \<Rightarrow> string"
  as_size :: "'n \<Rightarrow> nat \<Rightarrow> nat"
  as_uint32 :: "'n \<Rightarrow> u32 \<Rightarrow> u32"

definition and_then :: "'e + 'a \<Rightarrow> ('a \<Rightarrow> 'e + 'b) \<Rightarrow> 'e + 'b" where
  "and_then r f = (case r of Inl e \<Rightarrow> Inl e | Inr x \<Rightarrow> f x)"

lemma and_then_simps [simp]:
  "and_then (Inl e) f = Inl e" "and_then (Inr x) f = f x"
  by (simp_all add: and_then_def)

lemma and_then_Inr: "and_then r f = Inr y \<longleftrightarrow> (\<exists>x. r = Inr x \<and> f x = Inr y)"
  by (cases r) simp_all

text \<open>\<open>node[key].as<T>(fallback)\<close>.\<close>

definition field :: "'n yaml \<Rightarrow> ('n \<Rightarrow> 'v \<Rightarrow> 'v) \<Rightarrow> 'n \<Rightarrow> string \<Rightarrow> 'v \<Rightarrow> string + 'v" where
  "field Y conv node key fallback = and_then (subscript Y node key) (\<lambda>n. Inr (conv n fallback))"

text \<open>\<open>if (auto n = root[key])\<close> around the loading of a section.\<close>

definition section_of :: "'n yaml \<Rightarrow> 'n \<Rightarrow> string \<Rightarrow> ('n \<Rightarrow> string + 'v) \<Rightarrow> string + 'v option" where
  "section_of Y root key load =
     and_then (subscript Y root key) (\<lambda>n. if is_defined Y n then and_then (load n) (\<lambda>v. Inr (Some v)) else Inr None)"

definition load_features :: "'n yaml \<Rightarrow> 'n \<Rightarrow> string + FeatureToggles" where
  "load_features Y node =
     (let d = default_FeatureToggles in
      and_then (field Y (as_bool Y) node ''enabled'' (enabled d)) (\<lambda>en.
      and_then (field Y (as_bool Y) node ''log_filter'' (enable_log_filter d)) (\<lambda>lf.
      and_then (field Y (as_bool Y) node ''pcap'' (enable_pcap d)) (\<lambda>pc.
      and_then (field Y (as_bool Y) node ''exec'' (enable_exec d)) (\<lambda>ex.
      Inr (let toggles = \<lparr>enabled = en, enable_log_filter = lf, enable_pcap = pc, enable_exec = ex\<rparr>
           in if \<not> enabled toggles
              then toggles\<lparr>enable_log_filter := False, enable_pcap := False, enable_exec := False\<rparr>
              else toggles))))))"

definition load_logging :: "'n yaml \<Rightarrow> 'n \<Rightarrow> string + LoggingConfig" where
  "load_logging Y node =
     (let d = default_LoggingConfig in
      and_then (field Y (as_string Y) node ''file'' (lc_file d)) (\<lambda>f.
      and_then (field Y (as_size Y) node ''max_files'' (max_files d)) (\<lambda>n.
      and_then (field Y (as_size Y) node ''max_size_bytes'' (max_size_bytes d)) (\<lambda>b.
      Inr \<lparr>lc_file = f, max_files = n, max_size_bytes = b\<rparr>))))"

definition load_log_filter :: "'n yaml \<Rightarrow> 'n \<Rightarrow> string + LogOptions" where
  "load_log_filter Y node =
     (let d = default_LogOptions in
      and_then (field Y (as_string Y) node ''log_root'' (log_root d)) (\<lambda>root.
      and_then (field Y (as_string Y) node ''temp_dir'' (temp_dir d)) (\<lambda>tmp.
      and_then (field Y (as_size Y) node ''chunk_size'' (chunk_size d)) (\<lambda>size.
      and_then (field Y (as_bool Y) node ''cleanup_temp_file'' (cleanup_temp_file d)) (\<lambda>cl.
      and_then (field Y (as_string Y) node ''base_path'' (base_path d)) (\<lambda>base.
      and_then (field Y (as_bool Y) node ''include_rotations'' (include_rotations d)) (\<lambda>rot.
      and_then (field Y (as_uint32 Y) node ''rotation_scan_depth'' (rotation_scan_depth d)) (\<lambda>depth.
      and_then (field Y (as_string Y) node ''output_basename'' (output_basename d)) (\<lambda>outp.
      Inr \<lparr>log_root = root, temp_dir = tmp, chunk_size = size, cleanup_temp_file = cl, base_path = base,
           include_rotations = rot, rotation_scan_depth = depth, output_basename = outp\<rparr>)))))))))"

definition load_auth :: "'n yaml \<Rightarrow> 'n \<Rightarrow> string + AuthConfig" where
  "load_auth Y node =
     (let d = default_AuthConfig in
      and_then (field Y (as_bool Y) node ''enabled'' (auth_enabled d)) (\<lambda>en.
      and_then (field Y (as_string Y) node ''server'' (auth_server d)) (\<lambda>server.
      and_then (field Y (as_string Y) node ''persistence_file'' (auth_persistence_file d)) (\<lambda>pf.
      and_then (field Y (as_string Y) node ''mode'' (auth_mode d)) (\<lambda>mode.
      Inr \<lparr>auth_enabled = en, auth_server = server, auth_persistence_file = pf, auth_mode = mode\<rparr>)))))"

text \<open>The left side is the text of the exception.\<close>

definition LoadAgentConfig :: "'n yaml \<Rightarrow> string \<Rightarrow> string + AgentConfig" where
  "LoadAgentConfig Y path =
     and_then (LoadFile Y path) (\<lambda>root.
     and_then (section_of Y root ''features'' (load_features Y)) (\<lambda>fs.
     and_then (section_of Y root ''logging'' (load_logging Y)) (\<lambda>lg.
     and_then (section_of Y root ''log_filter'' (load_log_filter Y)) (\<lambda>lf.
     and_then (section_of Y root ''auth'' (load_auth Y)) (\<lambda>au.
     Inr \<lparr>features = fs, logging = lg, log_filter = lf, auth = au\<rparr>)))))"

section \<open>Applying the configuration\<close>

text \<open>How the program can end early: with a status, or by an exception nothing catches.\<close>

datatype main_stop = Exit int | Uncaught string

definition clamp_logging :: "LoggingConfig \<Rightarrow> LoggingConfig" where
  "clamp_logging cfg = cfg\<lparr>max_files := max 1 (max_files cfg), max_size_bytes := max 1024 (max_size_bytes cfg)\<rparr>"

definition log_options_of :: "LogOptions option \<Rightarrow> LoggingConfig option \<Rightarrow> LogOptions option" where
  "log_options_of configured logging_cfg =
     (case configured of
        Some opts \<Rightarrow>
          (let opts1 = (case logging_cfg of
                 Some cfg \<Rightarrow>
                   if include_rotations opts \<and> rotation_scan_depth opts = 0
                   then opts\<lparr>rotation_scan_depth := of_nat (max_files cfg)\<rparr> else opts
               | None \<Rightarrow> opts);
               opts2 = (case logging_cfg of
                 Some cfg \<Rightarrow> if base_path opts1 = '''' \<and> lc_file cfg \<noteq> '''' then opts1\<lparr>base_path := lc_file cfg\<rparr> else opts1
               | None \<Rightarrow> opts1)
           in Some opts2)
      | None \<Rightarrow>
          (case logging_cfg of
             Some cfg \<Rightarrow>
               if lc_file cfg \<noteq> ''''
               then Some (default_LogOptions\<lparr>base_path := lc_file cfg, include_rotations := True,
                            rotation_scan_depth := of_nat (max_files cfg)\<rparr>)
               else None
           | None \<Rightarrow> None))"

definition apply_config :: "AgentConfig \<Rightarrow> 'l runtime \<Rightarrow> LoggingConfig option \<times> 'l runtime" where
  "apply_config cfg rt =
     (let rt1 = (case features cfg of Some t \<Rightarrow> SetFeatureToggles t rt | None \<Rightarrow> rt);
          logging_cfg = map_option clamp_logging (logging cfg);
          rt2 = (case log_options_of (log_filter cfg) logging_cfg of Some opts \<Rightarrow> SetLogOptions opts rt1 | None \<Rightarrow> rt1)
      in (logging_cfg, rt2))"

definition main_configure ::
  "'n yaml \<Rightarrow> fs \<Rightarrow> string \<Rightarrow> 'l runtime \<Rightarrow> main_stop + AgentConfig option \<times> LoggingConfig option \<times> 'l runtime" where
  "main_configure Y F config_path rt =
     (if config_path = '''' then Inr (None, None, rt)
      else
        (case fs_exists F config_path of
           Inl e \<Rightarrow> Inl (Uncaught (errno_message e))
         | Inr False \<Rightarrow> Inl (Exit 1)
         | Inr True \<Rightarrow>
             (case LoadAgentConfig Y config_path of
                Inl e \<Rightarrow> Inl (Exit 1)
              | Inr cfg \<Rightarrow> (case apply_config cfg rt of (logging_cfg, rt1) \<Rightarrow> Inr (Some cfg, logging_cfg, rt1)))))"

section \<open>The log file and the agent's logger\<close>

text \<open>
  \<open>open_sink file size files F\<close> is the rotating file sink, \<open>None\<close> when its construction throws.
  Neither failure ends the program.
\<close>

definition main_logging ::
  "(string \<Rightarrow> nat \<Rightarrow> nat \<Rightarrow> fs \<Rightarrow> 'l option \<times> fs) \<Rightarrow> LoggingConfig option \<Rightarrow> fs \<Rightarrow> 'l runtime \<Rightarrow> fs \<times> 'l runtime" where
  "main_logging open_sink logging_cfg F rt =
     (case logging_cfg of
        None \<Rightarrow> (F, rt)
      | Some cfg \<Rightarrow>
          if lc_file cfg = '''' then (F, rt)
          else
            (case (if parent_path (lc_file cfg) \<noteq> '''' then create_directories F (parent_path (lc_file cfg)) else (None, F)) of
               (Some e, F1) \<Rightarrow> (F1, rt)
             | (None, F1) \<Rightarrow>
                 (case open_sink (lc_file cfg) (max_size_bytes cfg) (max_files cfg) F1 of
                    (None, F2) \<Rightarrow> (F2, rt)
                  | (Some sink, F2) \<Rightarrow> (F2, SetAdditionalLoggerSink (Some sink) rt))))"

text \<open>\<open>g_logger_once\<close>, \<open>g_logger\<close> and the registry; the agent keeps its logger alive.\<close>

record agent_logger =
  logger_once :: bool
  g_logger :: "nat option"
  log_registry :: registry

definition GetLogger :: "nat \<Rightarrow> nat option \<Rightarrow> agent_logger \<Rightarrow> nat option \<times> agent_logger" where
  "GetLogger console_sink logger_sink al =
     (if logger_once al then (g_logger al, al)
      else
        (let st1 = init default_LoggerConfig (log_registry al);
             st2 = add_sink (Some console_sink) st1;
             st3 = (if logger_sink \<noteq> None then add_sink logger_sink st2 else st2)
         in case get_logger ''agent.callback'' st3 of
              (p, st4) \<Rightarrow> (p, \<lparr>logger_once = True, g_logger = p, log_registry = st4\<rparr>)))"

section \<open>Authorization\<close>

text \<open>The mode the configuration forces, if any.\<close>

definition configured_mode :: "AuthConfig \<Rightarrow> AuthMode option" where
  "configured_mode cfg =
     (if auth_mode cfg = '''' then None
      else if ToLowerCopy (auth_mode cfg) = ''offline'' then Some Mode_kOffline
      else if ToLowerCopy (auth_mode cfg) = ''unknown'' then Some Mode_kUnknown
      else None)"

definition auth_status :: "string \<Rightarrow> AuthMode \<Rightarrow> AuthConfig \<Rightarrow> bool \<Rightarrow> string" where
  "auth_status server effective_mode cfg authorized =
     ''[agent] auth enabled: server='' @ server @ '' mode='' @ AuthModeName effective_mode @
     '' persistence='' @ (if auth_persistence_file cfg = '''' then ''(memory)'' else auth_persistence_file cfg) @
     '' authorized='' @ (if authorized then ''true'' else ''false'') @ [CHR 0x0A]"

text \<open>
  \<open>now\<close> is the clock at the start of the manager, \<open>now2\<close> at the check that follows, \<open>meanwhile\<close> what
  the stream thread does between the two.
\<close>

definition start_auth ::
  "('d, 'h, 's) dispatcher \<Rightarrow> codec \<Rightarrow> int \<Rightarrow> int \<Rightarrow> (('d, 's) auth_world \<Rightarrow> ('d, 's) auth_world) \<Rightarrow> AuthConfig \<Rightarrow> string \<Rightarrow>
   fs \<Rightarrow> 'd event_bus \<Rightarrow> 's \<Rightarrow> ('d, 's) auth_world \<times> string" where
  "start_auth D cd now now2 meanwhile cfg target F bus prog =
     (let server = (if auth_server cfg = '''' then target else auth_server cfg);
          w0 = new_AuthManager D F bus prog;
          w1 = (if auth_persistence_file cfg \<noteq> '''' then with_owner (SetPersistenceFile (auth_persistence_file cfg)) w0 else w0);
          w2 = (case configured_mode cfg of Some mode \<Rightarrow> with_owner (AuthManager_SetMode mode) w1 | None \<Rightarrow> w1);
          w3 = meanwhile (AuthManager_Start D cd now w2);
          effective_mode = (case configured_mode cfg of Some mode \<Rightarrow> mode | None \<Rightarrow> am_mode (owner w3));
          authorized = fst (CheckAuthorization D cd now2 (owner w3));
          w4 = with_owner (\<lambda>m. snd (CheckAuthorization D cd now2 m)) w3
      in (w4, auth_status server effective_mode cfg authorized))"

definition main_auth ::
  "('d, 'h, 's) dispatcher \<Rightarrow> codec \<Rightarrow> int \<Rightarrow> int \<Rightarrow> (('d, 's) auth_world \<Rightarrow> ('d, 's) auth_world) \<Rightarrow> AgentConfig option \<Rightarrow>
   string \<Rightarrow> fs \<Rightarrow> 'd event_bus \<Rightarrow> 's \<Rightarrow> ('d, 's) auth_world option \<times> string" where
  "main_auth D cd now now2 meanwhile agent_config target F bus prog =
     (case Option.bind agent_config auth of
        None \<Rightarrow> (None, ''[agent] auth not configured (disabled)'' @ [CHR 0x0A])
      | Some cfg \<Rightarrow>
          if auth_enabled cfg
          then (case start_auth D cd now now2 meanwhile cfg target F bus prog of (w, status) \<Rightarrow> (Some w, status))
          else (None, ''[agent] auth disabled by config'' @ [CHR 0x0A]))"

section \<open>The program\<close>

record arguments =
  show_help :: bool
  target :: string
  arg_agent_id :: "string option"
  config_path :: string

text \<open>The identifier of an agent that was given none; \<open>now\<close> is the system clock in milliseconds.\<close>

definition GenerateFallbackAgentId :: "int \<Rightarrow> string" where
  "GenerateFallbackAgentId now =
     ''agent-'' @ (if now < 0 then ''-'' @ to_string (nat (- now)) else to_string (nat now))"

lemma fallback_ids_differ: "GenerateFallbackAgentId a = GenerateFallbackAgentId b \<Longrightarrow> 0 \<le> a \<Longrightarrow> 0 \<le> b \<Longrightarrow> a = b"
  using from_digits_to_string [of "nat a"] from_digits_to_string [of "nat b"] by (auto simp: GenerateFallbackAgentId_def)

text \<open>The rest of the world the program runs in, each component as introduced above.\<close>

record ('n, 'd, 'h, 's, 'l) main_env =
  yaml_lib :: "'n yaml"
  bus_lib :: "('d, 'h, 's) dispatcher"
  proto_codec :: codec
  rotating_sink :: "string \<Rightarrow> nat \<Rightarrow> nat \<Rightarrow> fs \<Rightarrow> 'l option \<times> fs"
  clock_id :: int
  clock_start :: int
  clock_check :: int
  auth_meanwhile :: "('d, 's) auth_world \<Rightarrow> ('d, 's) auth_world"
  auth_running :: "('d, 's) auth_world \<Rightarrow> ('d, 's) auth_world"
  agent_fuel :: nat
  agent_during :: "reactor_id \<Rightarrow> callback_client \<Rightarrow> callback_client"
  agent_join :: "callback_client \<Rightarrow> callback_client"
  temp_directory :: "string option"

record ('d, 's, 'l) main_result =
  agent_result :: start_result
  auth_result :: "('d, 's) auth_world option"
  status_line :: string
  end_fs :: fs
  end_runtime :: "'l runtime"

text \<open>
  \<open>main\<close>, on the global bus as it is after the static initialisation. A run that \<open>StartAgent\<close> has not
  ended within the fuel is \<open>StillRunning\<close>. The client subscribes to the same bus; what the events
  of the running manager do to it is part of \<open>agent_during\<close>.
\<close>

definition agent_main ::
  "('n, 'd, 'h, 's, 'l) main_env \<Rightarrow> arguments \<Rightarrow> fs \<Rightarrow> 'd event_bus \<Rightarrow> 's \<Rightarrow> 'l runtime \<Rightarrow>
   main_stop + ('d, 's, 'l) main_result" where
  "agent_main E args F bus prog rt =
     (if show_help args then Inl (Exit 0)
      else
        (let i = (case arg_agent_id args of Some a \<Rightarrow> if a = '''' then GenerateFallbackAgentId (clock_id E) else a | None \<Rightarrow> GenerateFallbackAgentId (clock_id E))
         in case main_configure (yaml_lib E) F (config_path args) rt of
              Inl stop \<Rightarrow> Inl stop
            | Inr (agent_config, logging_cfg, rt1) \<Rightarrow>
                (case main_logging (rotating_sink E) logging_cfg F rt1 of
                   (F1, rt2) \<Rightarrow>
                     (case main_auth (bus_lib E) (proto_codec E) (clock_start E) (clock_check E) (auth_meanwhile E)
                             agent_config (target args) F1 bus prog of
                        (w, status) \<Rightarrow>
                          (let last_ev = LastEvent (case w of Some w \<Rightarrow> am_bus (owner w) | None \<Rightarrow> bus)
                           in case StartAgent (agent_fuel E) (agent_during E) (agent_join E) (temp_directory E) last_ev True i rt2 of
                                (r, rt3) \<Rightarrow>
                                  Inr \<lparr>agent_result = r,
                                       auth_result = map_option (\<lambda>w. AuthManager_Stop (auth_running E w)) w,
                                       status_line = status, end_fs = F1, end_runtime = rt3\<rparr>)))))"

section \<open>What the program promises\<close>

lemma refuses_disabled:
  "\<not> enabled (active_features c) \<Longrightarrow> \<exists>reason. HandleStartOp start c = EnqueueWrite (Ack (meta_op_id start) False reason) c"
  by (auto simp: HandleStartOp_def StartOp_check_def SendAck_def Let_def)

lemma new_client_features:
  "active_features (new_ControlCallbackClient i opts feats tmp last_ev) =
     (case last_ev of None \<Rightarrow> feats | Some ev \<Rightarrow> if event_state ev = State_kOnline then feats else RestrictedFeatures)"
  "requested_features (new_ControlCallbackClient i opts feats tmp last_ev) = feats"
  by (auto simp: new_ControlCallbackClient_def Let_def OnAuthStateChanged_def ApplyFeatureUpdate_features event_toggles_def
        split: option.split)

lemma SetFeatureToggles_get:
  "GetFeatureToggles (SetFeatureToggles t rt) =
     (if enabled t then t else t\<lparr>enable_log_filter := False, enable_pcap := False, enable_exec := False\<rparr>)"
  by (simp add: GetFeatureToggles_def SetFeatureToggles_def Let_def)

lemma SetLogOptions_get [simp]:
  "GetFeatureToggles (SetLogOptions opts rt) = GetFeatureToggles rt"
  "GetLogOptionsOverride (SetLogOptions opts rt) = Some opts"
  by (simp_all add: GetFeatureToggles_def SetLogOptions_def GetLogOptionsOverride_def)

lemma main_configure_cases:
  assumes "main_configure Y F path rt = Inr (Some cfg, logging_cfg, rt1)"
  shows "LoadAgentConfig Y path = Inr cfg" "apply_config cfg rt = (logging_cfg, rt1)"
  using assms by (auto simp: main_configure_def split: if_splits sum.splits bool.splits prod.splits)

text \<open>
  C24. A configuration that switches the features off cannot be overruled: whatever authorization
  events the agent has seen before it was created and sees after, it refuses every start request,
  with the request's identifier, and changes nothing else.
\<close>

theorem config_disable_wins:
  assumes "main_configure Y F path rt = Inr (Some cfg, logging_cfg, rt1)"
    and "features cfg = Some toggles" and "\<not> enabled toggles"
  shows "\<exists>reason. HandleStartOp start
             (fold OnAuthStateChanged evs (new_ControlCallbackClient i opts (GetFeatureToggles rt1) tmp last_ev)) =
           EnqueueWrite (Ack (meta_op_id start) False reason)
             (fold OnAuthStateChanged evs (new_ControlCallbackClient i opts (GetFeatureToggles rt1) tmp last_ev))"
proof -
  have "GetFeatureToggles rt1 = GetFeatureToggles (SetFeatureToggles toggles rt)"
    using main_configure_cases(2) [OF assms(1)] assms(2)
    by (auto simp: apply_config_def Let_def split: option.splits)
  then have off: "\<not> enabled (GetFeatureToggles rt1)" using assms(3) by (simp add: SetFeatureToggles_get)
  have "\<not> enabled (active_features (fold OnAuthStateChanged evs c))"
    if "\<not> enabled (active_features c)" "\<not> enabled (requested_features c)" for c
    using that
  proof (induction evs arbitrary: c)
    case (Cons ev evs)
    then show ?case
      by (simp add: OnAuthStateChanged_def ApplyFeatureUpdate_features event_toggles_def RestrictedFeatures_def)
  qed simp
  then show ?thesis
    by (intro refuses_disabled)
       (simp add: new_client_features off RestrictedFeatures_def split: option.split)
qed

text \<open>
  C25. Naming a log file is enough to make log filtering work: with a \<open>logging\<close> section that names a
  file and no \<open>log_filter\<close> section, every log filter task passes its validation, except when the
  configured number of files is a positive multiple of \<open>2\<^sup>3\<^sup>2\<close>: the number is cut to 32 bits, the depth
  becomes zero, and the task is refused for it.
\<close>

theorem log_file_enables_filter:
  assumes "main_configure Y F path rt = Inr (Some cfg, logging_cfg, rt1)"
    and "logging cfg = Some lc" and "lc_file lc \<noteq> ''''" and "log_filter cfg = None"
  shows "\<exists>opts. GetLogOptionsOverride rt1 = Some opts \<and> base_path opts = lc_file lc \<and>
           Validate (LogFilterTask spec opts) =
             (if 0 < max_files lc \<and> max_files lc mod 2 ^ 32 = 0 then (False, ''invalid rotation depth'') else (True, ''''))"
proof -
  let ?n = "max 1 (max_files lc)"
  have cut: "(of_nat m :: u32) = 0 \<longleftrightarrow> m mod 2 ^ 32 = 0" for m :: nat
    by (simp add: word_of_nat_eq_0_iff dvd_eq_mod_eq_0)
  have zero: "(of_nat ?n :: u32) = 0 \<longleftrightarrow> 0 < max_files lc \<and> max_files lc mod 2 ^ 32 = 0"
    unfolding cut by (cases "max_files lc = 0") (simp_all add: max_def Suc_le_eq)
  let ?opts = "default_LogOptions\<lparr>base_path := lc_file lc, include_rotations := True, rotation_scan_depth := of_nat ?n\<rparr>"
  have "GetLogOptionsOverride rt1 = Some ?opts"
    using main_configure_cases(2) [OF assms(1)] assms(2-4)
    by (auto simp: apply_config_def Let_def log_options_of_def clamp_logging_def)
  then show ?thesis
    using zero assms(3) by (simp add: LogFilterTask_Validate_def default_LogOptions_def)
qed

text \<open>What the offline check finds depends on the persistence file alone.\<close>

definition offline_licensed :: "codec \<Rightarrow> AuthConfig \<Rightarrow> fs \<Rightarrow> int \<Rightarrow> bool" where
  "offline_licensed cd cfg F now \<longleftrightarrow>
     auth_persistence_file cfg \<noteq> '''' \<and>
     (case read_persisted cd F (auth_persistence_file cfg) of
        None \<Rightarrow> False | Some msg \<Rightarrow> \<exists>asset \<in> set (assets msg). IsAssetValid asset now)"

lemma CheckOffline_licensed:
  assumes "persistence_file m = auth_persistence_file cfg" and "am_fs m = F"
  shows "auth_state (snd (CheckOfflineAuthorization D cd now m)) =
           (if offline_licensed cd cfg F now then State_kOnline else State_kOffline)"
  using assms by (auto simp: CheckOfflineAuthorization_def offline_licensed_def split: option.split)

lemma CheckOffline_frame:
  "am_mode (snd (CheckOfflineAuthorization D cd now m)) = am_mode m"
  "persistence_file (snd (CheckOfflineAuthorization D cd now m)) = persistence_file m"
  "am_fs (snd (CheckOfflineAuthorization D cd now m)) = am_fs m"
  by (auto simp: CheckOfflineAuthorization_def split: option.split)

lemma new_AuthManager_frame:
  "stream_thread (new_AuthManager D F bus prog) = None" "calls (new_AuthManager D F bus prog) = {}"
  "am_mode (owner (new_AuthManager D F bus prog)) = Mode_kUnknown" "am_fs (owner (new_AuthManager D F bus prog)) = F"
  "persistence_file (owner (new_AuthManager D F bus prog)) = ''''"
  "announced (owner (new_AuthManager D F bus prog))"
  by (simp_all add: new_AuthManager_def with_owner_def SetConnectionCallback_def new_AuthClient_def announced_update)

lemma with_owner_thread [simp]:
  "stream_thread (with_owner f w) = stream_thread w" "calls (with_owner f w) = calls w"
  by (simp_all add: with_owner_def)

lemma start_auth_offline:
  assumes mode: "ToLowerCopy (auth_mode cfg) = ''offline''"
    and quiet: "\<And>w. stream_thread w = None \<Longrightarrow> calls w = {} \<Longrightarrow> meanwhile w = w"
    and start: "start_auth D cd now now2 meanwhile cfg tgt F bus prog = (w, status)"
  shows "auth_state (owner w) = (if offline_licensed cd cfg F now2 then State_kOnline else State_kOffline)"
    and "announced (owner w)"
proof -
  have forced: "configured_mode cfg = Some Mode_kOffline"
    using mode by (auto simp: configured_mode_def ToLowerCopy_def)
  let ?w0 = "new_AuthManager D F bus prog"
  let ?w1 = "if auth_persistence_file cfg \<noteq> '''' then with_owner (SetPersistenceFile (auth_persistence_file cfg)) ?w0 else ?w0"
  let ?w2 = "with_owner (AuthManager_SetMode Mode_kOffline) ?w1"
  let ?w3 = "AuthManager_Start D cd now ?w2"
  have w2: "stream_thread ?w2 = None" "calls ?w2 = {}" "am_mode (owner ?w2) = Mode_kOffline" "am_fs (owner ?w2) = F"
    "persistence_file (owner ?w2) = auth_persistence_file cfg" "announced (owner ?w2)"
    using new_AuthManager_frame [of D F bus prog]
    by (auto simp: AuthManager_SetMode_def SetPersistenceFile_def announced_def)
  have w3: "?w3 = with_owner (\<lambda>m. snd (CheckOfflineAuthorization D cd now m)) ?w2"
    using w2(3) by (simp add: AuthManager_Start_def Let_def)
  then have o3: "am_mode (owner ?w3) = Mode_kOffline" "am_fs (owner ?w3) = F"
    "persistence_file (owner ?w3) = auth_persistence_file cfg" "announced (owner ?w3)"
    using w2(3-6) announced_ops(3) [OF w2(6)] by (simp_all only: with_owner_frame CheckOffline_frame)
  have "meanwhile ?w3 = ?w3" using w2(1,2) by (intro quiet) (simp_all only: w3 with_owner_thread)
  then have "w = with_owner (\<lambda>m. snd (CheckAuthorization D cd now2 m)) ?w3"
    using start by (simp add: start_auth_def Let_def forced)
  then have ow: "owner w = snd (CheckOfflineAuthorization D cd now2 (owner ?w3))"
    using o3(1) by (simp only: with_owner_frame CheckAuthorization_def AuthMode.case)
  show "auth_state (owner w) = (if offline_licensed cd cfg F now2 then State_kOnline else State_kOffline)"
    and "announced (owner w)"
    by (simp_all only: ow CheckOffline_licensed [OF o3(3,2)] announced_ops(3) [OF o3(4)])
qed

text \<open>
  C23. Offline, the license file decides what the agent does: if the configured mode is \<open>offline\<close>, in any
  case of its letters, the client created after the authorization has been started works with the
  configured features exactly if the persistence file can be read, parses and has a valid asset at the
  time of the check; otherwise it refuses every start request. Nothing happens between the start and
  the check, as no stream thread runs.
\<close>

theorem offline_license_gates:
  assumes "ToLowerCopy (auth_mode cfg) = ''offline''"
    and "\<And>w. stream_thread w = None \<Longrightarrow> calls w = {} \<Longrightarrow> meanwhile w = w"
    and "start_auth D cd now now2 meanwhile cfg tgt F bus prog = (w, status)"
    and "c = new_ControlCallbackClient i opts feats tmp (LastEvent (am_bus (owner w)))"
  shows "if offline_licensed cd cfg F now2 then active_features c = feats
         else \<exists>reason. HandleStartOp start c = EnqueueWrite (Ack (meta_op_id start) False reason) c"
proof -
  note off = start_auth_offline [OF assms(1-3)]
  then have "active_features c = (if offline_licensed cd cfg F now2 then feats else RestrictedFeatures)"
    by (simp add: assms(4) new_client_features announced_def)
  then show ?thesis by (simp add: refuses_disabled RestrictedFeatures_def)
qed

text \<open>
  The agent's logger: created once, it writes to the sinks the registry had, then to the console, then to the
  log file if one was configured before its first use; a sink configured later is not added.
\<close>

lemma agent_logger_sinks:
  assumes reach: "registry_reachable (log_registry al)" and once: "\<not> logger_once al"
    and get: "GetLogger console logger_sink al = (r, al1)"
  shows "\<exists>p. r = Some p \<and>
    logger_sinks (objects (log_registry al1) p) = sinks (log_registry al) @ [console] @ (case logger_sink of None \<Rightarrow> [] | Some k \<Rightarrow> [k]) \<and>
    GetLogger console2 sink2 al1 = (r, al1)"
proof -
  define st where "st = add_sink logger_sink (add_sink (Some console) (init default_LoggerConfig (log_registry al)))"
  have r: "registry_reachable st"
    unfolding st_def by (intro registry_reachable.step [OF _ registry_step.add_sink] registry_reachable.step [OF reach registry_step.init])
  obtain p st4 where p: "make_logger_locked ''agent.callback'' (cleanup_expired_locked st) = (p, st4)" by fastforce
  have st: "sinks st = sinks (log_registry al) @ [console] @ (case logger_sink of None \<Rightarrow> [] | Some k \<Rightarrow> [k])" "\<not> shutting_down st"
    by (auto simp: st_def init_sinks add_sink_sinks split: option.split)
  have "al1 = \<lparr>logger_once = True, g_logger = Some p, log_registry = st4\<rparr>" "r = Some p"
    using get once st(2) p by (auto simp: GetLogger_def Let_def st_def get_logger_def add_sink_def split: if_splits)
  moreover have "logger_sinks (objects st4 p) = sinks st"
    using make_logger_sinks [OF registry_inv_cleanup [OF registry_reachable_inv [OF r]] p] by simp
  ultimately show ?thesis using st(1) by (simp add: GetLogger_def)
qed

section \<open>Examples\<close>

text \<open>A small tree in place of yaml-cpp's nodes.\<close>

datatype node = Undefined | Scalar string | MapNode "(string \<times> node) list"

fun node_subscript :: "node \<Rightarrow> string \<Rightarrow> string + node" where
  "node_subscript (MapNode es) key = Inr (case map_of es key of None \<Rightarrow> Undefined | Some n \<Rightarrow> n)"
| "node_subscript Undefined key = Inr Undefined"
| "node_subscript (Scalar s) key = Inl ''operator[] call on a scalar''"

fun node_bool :: "node \<Rightarrow> bool \<Rightarrow> bool" where
  "node_bool (Scalar s) fallback = (if s = ''true'' then True else if s = ''false'' then False else fallback)"
| "node_bool _ fallback = fallback"

fun node_string :: "node \<Rightarrow> string \<Rightarrow> string" where
  "node_string (Scalar s) fallback = s"
| "node_string _ fallback = fallback"

fun node_size :: "node \<Rightarrow> nat \<Rightarrow> nat" where
  "node_size (Scalar s) fallback =
     (if s \<noteq> '''' \<and> list_all is_digit s \<and> from_digits s < 2 ^ 64 then from_digits s else fallback)"
| "node_size _ fallback = fallback"

definition tree_yaml :: "node \<Rightarrow> node yaml" where
  "tree_yaml root = \<lparr>LoadFile = (\<lambda>_. Inr root), subscript = node_subscript, is_defined = (\<lambda>n. n \<noteq> Undefined),
     as_bool = node_bool, as_string = node_string, as_size = node_size,
     as_uint32 = (\<lambda>n d. of_nat (node_size n (unat d)))\<rparr>"

definition config_fs :: fs where
  "config_fs = empty_fs\<lparr>nodes := [[''c''] \<mapsto> File '''', [''l''] \<mapsto> File ''L'']\<rparr>"

definition features_off :: node where
  "features_off = MapNode [(''features'', MapNode [(''enabled'', Scalar ''false'')])]"

definition some_spec :: LogFilterSpec where
  "some_spec = \<lparr>start_time = None, end_time = None, level_in = [], grep_contains = '''', compress = False, lf_max_output_bytes = 0\<rparr>"

definition log_file_only :: "string \<Rightarrow> node" where
  "log_file_only n = MapNode [(''logging'', MapNode [(''file'', Scalar ''a.log''), (''max_files'', Scalar n)])]"

lemma config_exists: "fs_exists config_fs ''/c'' = Inr True"
  by (simp add: config_fs_def path_eval)

lemmas config_eval = main_configure_def config_exists LoadAgentConfig_def tree_yaml_def section_of_def field_def Let_def

lemma configure_features_off:
  "\<exists>cfg lg rt1. main_configure (tree_yaml features_off) config_fs ''/c'' rt = Inr (Some cfg, lg, rt1) \<and>
     features cfg = Some RestrictedFeatures"
  by (simp add: config_eval features_off_def load_features_def RestrictedFeatures_def split: prod.split)

theorem config_disable_wins_witness:
  "\<exists>cfg lg rt1 reason. main_configure (tree_yaml features_off) config_fs ''/c'' (initial_runtime :: nat runtime) = Inr (Some cfg, lg, rt1) \<and>
     (let c = fold OnAuthStateChanged [AuthStateChangedEvent State_kOnline]
          (new_ControlCallbackClient ''a'' default_LogOptions (GetFeatureToggles rt1) None None)
      in HandleStartOp \<lparr>meta_op_id = 4, start_spec = SPEC_NOT_SET\<rparr> c = EnqueueWrite (Ack 4 False reason) c)"
proof -
  obtain cfg lg rt1 where m: "main_configure (tree_yaml features_off) config_fs ''/c'' (initial_runtime :: nat runtime) = Inr (Some cfg, lg, rt1)"
    "features cfg = Some RestrictedFeatures"
    using configure_features_off by blast
  have "\<not> enabled RestrictedFeatures" by (simp add: RestrictedFeatures_def)
  from config_disable_wins [OF m this, of "\<lparr>meta_op_id = 4, start_spec = SPEC_NOT_SET\<rparr>" "[AuthStateChangedEvent State_kOnline]"
      "''a''" default_LogOptions None None] m(1)
  show ?thesis by (simp add: Let_def)
qed

lemma configure_log_file:
  assumes "list_all is_digit n" "n \<noteq> ''''" "from_digits n < 2 ^ 64"
  shows "\<exists>cfg lg rt1. main_configure (tree_yaml (log_file_only n)) config_fs ''/c'' rt = Inr (Some cfg, lg, rt1) \<and>
     logging cfg = Some \<lparr>lc_file = ''a.log'', max_files = from_digits n, max_size_bytes = 10485760\<rparr> \<and> log_filter cfg = None"
  using assms by (simp add: config_eval log_file_only_def load_logging_def default_LoggingConfig_def split: prod.split)

lemma digits_3: "list_all is_digit ''3''" "from_digits ''3'' = 3"
  by (simp_all add: is_digit_def from_digits_def char_digit_def)

lemma digits_4294967296: "list_all is_digit ''4294967296''" "from_digits ''4294967296'' = 4294967296"
  by (simp_all add: is_digit_def from_digits_def char_digit_def)

theorem log_file_enables_filter_witness:
  "(\<exists>cfg lg rt1 opts. main_configure (tree_yaml (log_file_only ''3'')) config_fs ''/c'' (initial_runtime :: nat runtime) =
       Inr (Some cfg, lg, rt1) \<and>
     GetLogOptionsOverride rt1 = Some opts \<and> Validate (LogFilterTask some_spec opts) = (True, '''')) \<and>
   (\<exists>cfg lg rt1 opts. main_configure (tree_yaml (log_file_only ''4294967296'')) config_fs ''/c'' (initial_runtime :: nat runtime) =
       Inr (Some cfg, lg, rt1) \<and>
     GetLogOptionsOverride rt1 = Some opts \<and> Validate (LogFilterTask some_spec opts) = (False, ''invalid rotation depth''))"
proof -
  have "\<exists>cfg lg rt1 opts. main_configure (tree_yaml (log_file_only n)) config_fs ''/c'' (initial_runtime :: nat runtime) =
       Inr (Some cfg, lg, rt1) \<and> GetLogOptionsOverride rt1 = Some opts \<and>
     Validate (LogFilterTask some_spec opts) =
       (if 0 < from_digits n \<and> from_digits n mod 2 ^ 32 = 0 then (False, ''invalid rotation depth'') else (True, ''''))"
    if n: "list_all is_digit n" "n \<noteq> ''''" "from_digits n < 2 ^ 64" for n
  proof -
    obtain cfg lg rt1 where m: "main_configure (tree_yaml (log_file_only n)) config_fs ''/c'' (initial_runtime :: nat runtime) =
         Inr (Some cfg, lg, rt1)"
      "logging cfg = Some \<lparr>lc_file = ''a.log'', max_files = from_digits n, max_size_bytes = 10485760\<rparr>" "log_filter cfg = None"
      using configure_log_file [OF n] by blast
    from log_file_enables_filter [OF m(1,2) _ m(3), of some_spec] m(1) show ?thesis by auto
  qed
  from this [OF digits_3(1)] this [OF digits_4294967296(1)] show ?thesis by (simp add: digits_3(2) digits_4294967296(2))
qed

definition offline_config :: AuthConfig where
  "offline_config = \<lparr>auth_enabled = True, auth_server = '''', auth_persistence_file = ''/l'', auth_mode = ''OffLine''\<rparr>"

theorem offline_license_gates_witness:
  "active_features (new_ControlCallbackClient ''a'' default_LogOptions default_FeatureToggles None
     (LastEvent (am_bus (owner (fst (start_auth list_dispatcher tiny_codec 40 50 (\<lambda>w. w) offline_config ''h:1'' config_fs quiet_bus 0)))))) =
   default_FeatureToggles"
proof -
  have mode: "ToLowerCopy (auth_mode offline_config) = ''offline''" unfolding offline_config_def by code_simp
  have "offline_licensed tiny_codec offline_config config_fs 50"
    by (simp add: offline_licensed_def offline_config_def read_persisted_def config_fs_def path_eval open_in_def
          tiny_codec_def license_def good_asset_def IsAssetValid_def)
  with offline_license_gates [OF mode _ prod.collapse [symmetric] refl,
      where meanwhile = "\<lambda>w. w" and F = config_fs and cd = tiny_codec and ?now2.0 = 50] show ?thesis by simp
qed

text \<open>
  The configuration file the repository comes with (\<open>standalone/config/zurg_agent.yaml\<close>). Its comment
  has it that \<open>max_files\<close> is the depth to which rotated logs are filtered as well; as the default depth
  of the \<open>log_filter\<close> section is not zero, it is not.
\<close>

definition sample_config :: node where
  "sample_config = MapNode
     [(''features'', MapNode [(''enabled'', Scalar ''true''), (''log_filter'', Scalar ''true''), (''pcap'', Scalar ''true''),
        (''exec'', Scalar ''true'')]),
      (''logging'', MapNode [(''file'', Scalar ''/var/log/zurg/agent.log''), (''max_files'', Scalar ''5''),
        (''max_size_bytes'', Scalar ''10485760'')]),
      (''log_filter'', MapNode [(''log_root'', Scalar ''''), (''temp_dir'', Scalar ''/tmp''), (''include_rotations'', Scalar ''true''),
        (''output_basename'', Scalar ''filtered''), (''chunk_size'', Scalar ''65536''), (''cleanup_temp_file'', Scalar ''true'')])]"

lemma sample_config_depth:
  "\<exists>cfg lc rt1 opts. main_configure (tree_yaml sample_config) config_fs ''/c'' rt = Inr (Some cfg, Some lc, rt1) \<and>
     max_files lc = 5 \<and> GetLogOptionsOverride rt1 = Some opts \<and> include_rotations opts \<and> rotation_scan_depth opts = 2"
proof -
  have five: "list_all is_digit ''5''" "from_digits ''5'' = 5"
    by (simp_all add: is_digit_def from_digits_def char_digit_def)
  show ?thesis
    by (simp add: config_eval sample_config_def load_features_def load_logging_def load_log_filter_def default_LogOptions_def
          default_LoggingConfig_def apply_config_def clamp_logging_def log_options_of_def five [simplified])
qed

end
