(* ===== verification/Gate_Composition.thy ===== *)
theory Gate_Composition
  imports Agent_Main
begin

text \<open>
  The license manager, the event bus and the control client put together, as \<open>main\<close> does
  (\<open>standalone/source/agent_main.cpp\<close>) and as the constructor of \<open>ControlCallbackClient\<close> does when it
  subscribes and asks for the last event. The state is that of the manager, whose program state is
  the agent with its threads.
\<close>

section \<open>What a step of the manager publishes\<close>

text \<open>The part of the manager the bus is about, and the effect of \<open>UpdateAuthState\<close> on it.\<close>

definition auth_view :: "('d, 's) auth_manager \<Rightarrow> AuthState \<times> 'd event_bus \<times> 's" where
  "auth_view m = (auth_state m, am_bus m, am_prog m)"

definition publish_view ::
  "('d, 'h, 's) dispatcher \<Rightarrow> bool \<Rightarrow> AuthState \<Rightarrow> AuthState \<times> 'd event_bus \<times> 's \<Rightarrow> AuthState \<times> 'd event_bus \<times> 's" where
  "publish_view D force st v =
     (case v of (s, bus, prog) \<Rightarrow>
        if force \<or> s \<noteq> st then (st, Publish D (AuthStateChangedEvent st) bus prog) else (st, bus, prog))"

lemma auth_view_update: "auth_view (UpdateAuthState D st b m) = publish_view D b st (auth_view m)"
  by (simp add: auth_view_def publish_view_def UpdateAuthState_def Let_def split: prod.split)

lemma auth_view_frame [simp]:
  "auth_view (PersistMessage cd msg m) = auth_view m" "auth_view (SetPersistenceFile path m) = auth_view m"
  "auth_view (AuthManager_SetMode mode m) = auth_view m" "auth_view (m\<lparr>am_mode := x\<rparr>) = auth_view m"
  by (auto simp: auth_view_def PersistMessage_def SetPersistenceFile_def AuthManager_SetMode_def split: option.split)

text \<open>Every operation publishes at most one state, and only a new one.\<close>

definition one_update :: "('d, 'h, 's) dispatcher \<Rightarrow> ('d, 's) auth_manager \<Rightarrow> ('d, 's) auth_manager \<Rightarrow> bool" where
  "one_update D m n \<longleftrightarrow> auth_view n = auth_view m \<or> (\<exists>st. auth_view n = publish_view D False st (auth_view m))"

lemma one_updateI:
  "auth_view n = auth_view m \<Longrightarrow> one_update D m n"
  "auth_view n = publish_view D False st (auth_view m) \<Longrightarrow> one_update D m n"
  unfolding one_update_def by blast+

lemma one_update_ops:
  "one_update D m (HandleMessage D cd now msg m)" "one_update D m (HandleConnection D b m)"
  "one_update D m (snd (CheckOfflineAuthorization D cd now m))" "one_update D m (snd (CheckAuthorization D cd now m))"
  "one_update D m (SetPersistenceFile path m)" "one_update D m (AuthManager_SetMode mode m)"
proof -
  show "one_update D m (HandleMessage D cd now msg m)"
    by (auto simp: HandleMessage_def Let_def auth_view_update intro: one_updateI)
  show "one_update D m (HandleConnection D b m)"
    by (auto simp: HandleConnection_def Let_def auth_view_update intro: one_updateI)
  show off: "one_update D m (snd (CheckOfflineAuthorization D cd now m))"
    by (auto simp: CheckOfflineAuthorization_def auth_view_update intro: one_updateI split: option.split)
  show "one_update D m (snd (CheckAuthorization D cd now m))"
    using off by (auto simp: CheckAuthorization_def intro: one_updateI split: AuthMode.split)
qed (auto intro: one_updateI)

lemma manager_step_update:
  assumes "manager_step D cd w v" and "connection_callback w = Some (HandleConnection D)"
  shows "one_update D (owner w) (owner v) \<and> connection_callback v = Some (HandleConnection D)"
  using assms
proof (induction rule: manager_step.induct)
  case (message r w now ok response)
  then show ?case
    by (auto simp: receive_def OnReadDone_def Auth_SetMessageCallback_def one_update_ops
          intro: one_updateI split: ServerMessage.splits)
next
  case (ended r w ok)
  then show ?case by (auto simp: OnDone_def NotifyReconnect_def Let_def one_update_ops intro: one_updateI)
next
  case (start w now)
  have "one_update D m (snd (CheckOfflineAuthorization D cd now (AuthManager_SetMode mode m)))" for m mode
    using one_update_ops(3) [of D "AuthManager_SetMode mode m"] by (simp add: one_update_def)
  with start show ?case
    by (auto simp: AuthManager_Start_def Let_def thread_frame one_update_ops intro: one_updateI split: AuthMode.splits)
next
  case (stop w)
  then show ?case by (auto simp: AuthManager_Stop_def thread_frame intro: one_updateI)
qed (auto simp: thread_frame one_update_ops intro: one_updateI)

section \<open>What an event does to the agent\<close>

text \<open>
  The listener of the client. The bus is locked while it dispatches, so the publishing thread does
  not publish again before the listener has sent its errors.
\<close>

definition auth_listener :: "AuthStateChangedEvent \<Rightarrow> agent \<Rightarrow> agent" where
  "auth_listener ev a =
     (case ApplyFeatureUpdate_locked (event_toggles ev (client a)) (client a) of
        (c, ops) \<Rightarrow> a\<lparr>client := c, auth_out := auth_out a @ ops\<rparr>)"

lemma auth_listener_step: "auth_out a = [] \<Longrightarrow> agent_step backoff a (auth_listener ev a)"
  using agent_step.auth_event [of a ev] by (auto simp: auth_listener_def split: prod.split)

definition gated :: "AuthState \<Rightarrow> FeatureToggles \<Rightarrow> FeatureToggles" where
  "gated st feats = (if st = State_kOnline then feats else RestrictedFeatures)"

lemma ApplyFeatureUpdate_locked_features:
  assumes "ApplyFeatureUpdate_locked toggles c = (d, ops)"
  shows "active_features d = toggles \<and> requested_features d = requested_features c"
  using ApplyFeatureUpdate_features [of toggles c] assms by (simp add: ApplyFeatureUpdate_def)

lemma auth_listener_features:
  "active_features (client (auth_listener ev a)) = gated (event_state ev) (requested_features (client a))"
  "requested_features (client (auth_listener ev a)) = requested_features (client a)"
  using ApplyFeatureUpdate_locked_features [of "event_toggles ev (client a)" "client a"]
  by (auto simp: auth_listener_def event_toggles_def gated_def split: prod.split)

text \<open>A step of the agent's own threads; events come from the bus.\<close>

definition event_step :: "agent \<Rightarrow> agent \<Rightarrow> bool" where
  "event_step a b \<longleftrightarrow> auth_out a = [] \<and> (\<exists>ev. b = auth_listener ev a)"

lemma more_features:
  "stream_client.more c = stream_client.more d \<Longrightarrow> active_features c = active_features d \<and> requested_features c = requested_features d"
  using client_part_eq(12,13) by blast

lemma OnDone_features:
  "active_features (Reactor_OnDone client_callbacks r st c) = active_features c \<and>
   requested_features (Reactor_OnDone client_callbacks r st c) = requested_features c"
proof -
  obtain c0 d ops where "stream_client.more c0 = stream_client.more c" and l: "CancelAllLocked_table c0 = (d, ops)"
    and "stream_client.more (Reactor_OnDone client_callbacks r st c) = stream_client.more d"
    by (rule OnDone_effect [of c r st]) blast
  moreover have "active_features d = active_features c0 \<and> requested_features d = requested_features c0"
    using l by (auto simp: CancelAllLocked_table_def Let_def)
  ultimately show ?thesis using more_features by metis
qed

lemma locked_features:
  "HandleCancel_locked i c = (d, ops) \<Longrightarrow> active_features d = active_features c \<and> requested_features d = requested_features c"
  "HandleShutdown_locked b c = (d, ops) \<Longrightarrow> active_features d = active_features c \<and> requested_features d = requested_features c"
  "StartOp_commit t c = (r, d) \<Longrightarrow> active_features d = active_features c \<and> requested_features d = requested_features c"
  by (auto simp: HandleCancel_locked_def HandleShutdown_locked_def StartOp_commit_def Let_def split: option.splits if_splits)

lemma agent_step_features:
  assumes "agent_step backoff a b" and "\<not> event_step a b"
  shows "active_features (client b) = active_features (client a) \<and> requested_features (client b) = requested_features (client a)"
  using assms(1)
proof cases
  case (auth_event ev c ops)
  then have "b = auth_listener ev a" by (simp add: auth_listener_def)
  with auth_event(2) assms(2) show ?thesis unfolding event_step_def by blast
next
  case (closed r status)
  then show ?thesis by (simp add: OnDone_features)
next
  case (write_done r k)
  then show ?thesis using more_features [OF OnWriteDone_effect(1)] by simp
next
  case connect
  then show ?thesis using more_features [OF Run_connect_effect(1)] by simp
next
  case (retry r)
  then show ?thesis using more_features [OF Run_retry_effect(1)] by simp
qed (auto simp: SendAck_def set_task_state_def Worker_take_def Worker_finish_def Let_def dest: locked_features)

section \<open>The whole\<close>

text \<open>
  Where the construction of the client is: not begun, subscribed, with the last event read, with the
  gate set, with its threads running, stopped by the destructor after \<open>Run\<close> has returned, and gone.
\<close>

datatype construction = NotBuilt | Subscribed | HasRead "AuthStateChangedEvent option" | Built | Running | Stopped | Destroyed

record ('d, 'h) joint =
  world :: "('d, agent) auth_world"
  construction :: construction
  auth_subscription :: "'h SubscriptionToken"

abbreviation joint_prog :: "('d, 'h) joint \<Rightarrow> agent" where
  "joint_prog j \<equiv> am_prog (owner (world j))"

text \<open>The client before its gate is set, and the agent before its threads start.\<close>

definition unset_client :: "string \<Rightarrow> LogOptions \<Rightarrow> FeatureToggles \<Rightarrow> string option \<Rightarrow> callback_client" where
  "unset_client i opts feats tmp = new_ControlCallbackClient i opts feats tmp None"

definition blank_agent :: "callback_client \<Rightarrow> agent" where
  "blank_agent c = (initial_agent c)\<lparr>client := c\<rparr>"

definition set_prog :: "agent \<Rightarrow> ('d, agent) auth_world \<Rightarrow> ('d, agent) auth_world" where
  "set_prog a w = with_owner (\<lambda>m. m\<lparr>am_prog := a\<rparr>) w"

definition set_bus :: "'d event_bus \<Rightarrow> ('d, agent) auth_world \<Rightarrow> ('d, agent) auth_world" where
  "set_bus bus w = with_owner (\<lambda>m. m\<lparr>am_bus := bus\<rparr>) w"

text \<open>The new token is moved into the member, which is a default one until then.\<close>

definition subscribe_client ::
  "('d, 'h, agent) dispatcher \<Rightarrow> 'h SubscriptionToken \<Rightarrow> 'd event_bus \<Rightarrow> 'd event_bus \<times> 'h SubscriptionToken" where
  "subscribe_client D this bus =
     (let (bus1, tok) = Subscribe D auth_listener bus;
          (bus2, new, rest) = Token_assign D this tok bus1
      in (bus2, new))"

text \<open>\<open>Stop\<close> unsubscribes, and the destructor, which has called it, once more.\<close>

definition unsubscribe_client ::
  "('d, 'h, agent) dispatcher \<Rightarrow> 'h SubscriptionToken \<Rightarrow> 'd event_bus \<Rightarrow> 'd event_bus \<times> 'h SubscriptionToken" where
  "unsubscribe_client D tok bus =
     (let (bus1, tok1) = Token_Unsubscribe D tok bus in Token_Unsubscribe D tok1 bus1)"

definition set_gate :: "AuthStateChangedEvent option \<Rightarrow> callback_client \<Rightarrow> callback_client" where
  "set_gate seen c = (case seen of Some ev \<Rightarrow> OnAuthStateChanged ev c | None \<Rightarrow> ApplyFeatureUpdate (active_features c) c)"

definition start_joint ::
  "('d, 'h, agent) dispatcher \<Rightarrow> fs \<Rightarrow> 'd event_bus \<Rightarrow> callback_client \<Rightarrow> ('d, 'h) joint" where
  "start_joint D F bus c =
     \<lparr>world = new_AuthManager D F bus (blank_agent c), construction = NotBuilt, auth_subscription = default_token\<rparr>"

text \<open>
  The manager may act at any time, except while the publishing thread is still in the listener, and,
  if \<open>undisturbed\<close> is set, between the reading of the last event and its application. As the bus is
  locked while it dispatches, \<open>Unsubscribe\<close> waits for the listener. The destructor runs when \<open>Run\<close>
  has returned, for which the worker has left its loop, so that there is nothing to join.
\<close>

inductive joint_step ::
  "bool \<Rightarrow> ('d, 'h, agent) dispatcher \<Rightarrow> codec \<Rightarrow> (nat \<Rightarrow> int) \<Rightarrow> ('d, 'h) joint \<Rightarrow> ('d, 'h) joint \<Rightarrow> bool"
  for undisturbed D cd backoff where
  manager: "manager_step D cd (world j) v \<Longrightarrow> am_prog (owner v) = joint_prog j \<or> auth_out (joint_prog j) = [] \<Longrightarrow>
     undisturbed \<longrightarrow> (\<forall>seen. construction j \<noteq> HasRead seen) \<Longrightarrow>
     joint_step undisturbed D cd backoff j (j\<lparr>world := v\<rparr>)"
| subscribe: "construction j = NotBuilt \<Longrightarrow>
     subscribe_client D (auth_subscription j) (am_bus (owner (world j))) = (bus, tok) \<Longrightarrow>
     joint_step undisturbed D cd backoff j
       \<lparr>world = set_bus bus (world j), construction = Subscribed, auth_subscription = tok\<rparr>"
| read_last: "construction j = Subscribed \<Longrightarrow>
     joint_step undisturbed D cd backoff j (j\<lparr>construction := HasRead (LastEvent (am_bus (owner (world j))))\<rparr>)"
| apply_last: "construction j = HasRead seen \<Longrightarrow> a = joint_prog j \<Longrightarrow>
     joint_step undisturbed D cd backoff j
       (j\<lparr>world := set_prog (a\<lparr>client := set_gate seen (client a)\<rparr>) (world j), construction := Built\<rparr>)"
| run: "construction j = Built \<Longrightarrow>
     joint_step undisturbed D cd backoff j
       (j\<lparr>world := set_prog (initial_agent (client (joint_prog j))) (world j), construction := Running\<rparr>)"
| agent: "construction j = Running \<or> construction j = Stopped \<Longrightarrow> agent_step backoff (joint_prog j) a \<Longrightarrow>
     \<not> event_step (joint_prog j) a \<Longrightarrow>
     joint_step undisturbed D cd backoff j (j\<lparr>world := set_prog a (world j)\<rparr>)"
| stop: "construction j = Running \<Longrightarrow> a = joint_prog j \<Longrightarrow> worker a = WDone \<Longrightarrow> \<not> s_running (client a) \<Longrightarrow>
     joint_step undisturbed D cd backoff j
       (j\<lparr>world := set_prog (a\<lparr>client := Client_Stop id (client a)\<rparr>) (world j), construction := Stopped\<rparr>)"
| unsubscribe: "construction j = Stopped \<Longrightarrow> auth_out (joint_prog j) = [] \<Longrightarrow>
     unsubscribe_client D (auth_subscription j) (am_bus (owner (world j))) = (bus, tok) \<Longrightarrow>
     joint_step undisturbed D cd backoff j
       \<lparr>world = set_bus bus (world j), construction = Destroyed, auth_subscription = tok\<rparr>"

inductive joint_reachable ::
  "bool \<Rightarrow> ('d, 'h, agent) dispatcher \<Rightarrow> codec \<Rightarrow> (nat \<Rightarrow> int) \<Rightarrow> ('d, 'h) joint \<Rightarrow> ('d, 'h) joint \<Rightarrow> bool"
  for undisturbed D cd backoff j0 where
  init: "joint_reachable undisturbed D cd backoff j0 j0"
| step: "joint_reachable undisturbed D cd backoff j0 j \<Longrightarrow> joint_step undisturbed D cd backoff j k \<Longrightarrow>
     joint_reachable undisturbed D cd backoff j0 k"

subsection \<open>Building the client\<close>

lemma unset_client_facts:
  "active_features (unset_client i opts feats tmp) = feats" "requested_features (unset_client i opts feats tmp) = feats"
  "task_queue (unset_client i opts feats tmp) = []" "tasks (unset_client i opts feats tmp) = []"
  "current_task (unset_client i opts feats tmp) = nullptr"
  by (auto simp: unset_client_def new_client_features)
     (auto simp: new_ControlCallbackClient_def ApplyFeatureUpdate_def ApplyFeatureUpdate_locked_def Let_def)

text \<open>A client without operations: a feature update does nothing but set the features.\<close>

lemma apply_unset:
  assumes "task_queue c = []" and "tasks c = []" and "current_task c = nullptr"
  shows "ApplyFeatureUpdate_locked toggles c = (c\<lparr>active_features := toggles\<rparr>, [])"
  using assms by (simp add: ApplyFeatureUpdate_locked_def drop_queued_def drop_tabled_def Let_def)

lemma new_client_gated:
  "new_ControlCallbackClient i opts feats tmp (Some (AuthStateChangedEvent st)) =
     (unset_client i opts feats tmp)\<lparr>active_features := gated st feats\<rparr>"
  unfolding unset_client_def new_ControlCallbackClient_def Let_def
  by (auto simp: OnAuthStateChanged_def ApplyFeatureUpdate_def apply_unset event_toggles_def gated_def)

text \<open>The agent while the client is built: nothing has happened to it but that its features were set.\<close>

definition building :: "callback_client \<Rightarrow> FeatureToggles \<Rightarrow> agent" where
  "building c g = blank_agent (c\<lparr>active_features := g\<rparr>)"

lemma building_fields [simp]:
  "client (building c g) = c\<lparr>active_features := g\<rparr>" "auth_out (building c g) = []"
  by (simp_all add: building_def blank_agent_def initial_agent_def)

lemma building_again: "(building c g)\<lparr>client := c\<lparr>active_features := h\<rparr>\<rparr> = building c h"
  by (simp add: building_def blank_agent_def initial_agent_def)

lemma building_listener:
  assumes "task_queue c = []" "tasks c = []" "current_task c = nullptr" "requested_features c = feats"
  shows "auth_listener ev (building c g) = building c (gated (event_state ev) feats)"
  using assms apply_unset [of "c\<lparr>active_features := g\<rparr>"] building_again [where c = c and g = g]
  by (simp add: auth_listener_def event_toggles_def gated_def)

subsection \<open>The life of the subscription\<close>

lemma Publish_by_listeners:
  assumes "eventpp_laws D listeners"
  shows "snd (Publish D ev bus a) = fold (\<lambda>(k, cb). cb ev) (bus_listeners listeners bus) a"
    and "bus_listeners listeners (fst (Publish D ev bus a)) = bus_listeners listeners bus"
  by (simp_all add: Publish_def Let_def eventpp_lawsD(3) [OF assms] bus_listeners_def)

definition live_token :: "'h \<Rightarrow> 'h SubscriptionToken" where
  "live_token h = \<lparr>tok_type = kAuthStateChanged, tok_bus = True, tok_handle = Some h, tok_active = True\<rparr>"

lemma subscribe_client_effect:
  assumes "eventpp_laws D listeners" and "bus_listeners listeners bus = []" and "subscribe_client D default_token bus = (bus', tok)"
  shows "\<exists>h. tok = live_token h \<and> bus_listeners listeners bus' = [(h, auth_listener)]"
    and "last_events bus' = last_events bus"
proof -
  obtain d h where d: "appendListener D kAuthStateChanged auth_listener (dispatcher_state bus) = (d, h)" by fastforce
  with assms(3) have "bus' = bus\<lparr>dispatcher_state := d\<rparr>" "tok = live_token h"
    by (simp_all add: subscribe_client_def Subscribe_def Token_assign_def Token_Unsubscribe_def MoveFrom_def default_token_def
          live_token_def)
  with eventpp_lawsD(1) [OF assms(1) d] assms(2)
  show "\<exists>h. tok = live_token h \<and> bus_listeners listeners bus' = [(h, auth_listener)]" and "last_events bus' = last_events bus"
    by (simp_all add: bus_listeners_def)
qed

lemma unsubscribe_client_effect:
  assumes "eventpp_laws D listeners" and "bus_listeners listeners bus = [(h, auth_listener)]"
    and "unsubscribe_client D (live_token h) bus = (bus', tok)"
  shows "\<not> tok_active tok" and "bus_listeners listeners bus' = []" and "last_events bus' = last_events bus"
  using assms
  by (auto simp: unsubscribe_client_def Token_Unsubscribe_def live_token_def Bus_Unsubscribe_def bus_listeners_def
        eventpp_lawsD(2) [OF assms(1)])

text \<open>The bus has the client's listener from the subscription to the end of the destructor, and no other.\<close>

definition subscribed_phase :: "construction \<Rightarrow> bool" where
  "subscribed_phase k \<longleftrightarrow> k \<noteq> NotBuilt \<and> k \<noteq> Destroyed"

definition life_inv ::
  "('d, 'h, agent) dispatcher \<Rightarrow> ('d \<Rightarrow> EventType \<Rightarrow> ('h \<times> (AuthStateChangedEvent \<Rightarrow> agent \<Rightarrow> agent)) list) \<Rightarrow>
   ('d, 'h) joint \<Rightarrow> bool" where
  "life_inv D listeners j \<longleftrightarrow>
     world_inv D (world j) \<and>
     (construction j = NotBuilt \<longrightarrow> auth_subscription j = default_token) \<and>
     (if subscribed_phase (construction j)
      then \<exists>h. auth_subscription j = live_token h \<and> bus_listeners listeners (am_bus (owner (world j))) = [(h, auth_listener)]
      else bus_listeners listeners (am_bus (owner (world j))) = [])"

lemma life_invD:
  assumes "life_inv D listeners j"
  shows "world_inv D (world j)" and "connection_callback (world j) = Some (HandleConnection D)"
    and "LastEvent (am_bus (owner (world j))) = Some (AuthStateChangedEvent (auth_state (owner (world j))))"
    and "construction j = NotBuilt \<Longrightarrow> auth_subscription j = default_token"
    and "fold (\<lambda>(k, cb). cb ev) (bus_listeners listeners (am_bus (owner (world j)))) a =
         (if subscribed_phase (construction j) then auth_listener ev a else a)"
  using assms by (auto simp: life_inv_def world_inv_def announced_def)

text \<open>What a step of the manager does to the agent.\<close>

lemma manager_step_effect:
  assumes laws: "eventpp_laws D listeners" and inv: "life_inv D listeners j" and step: "manager_step D cd (world j) v"
  shows "am_prog (owner v) =
           (if auth_state (owner v) \<noteq> auth_state (owner (world j)) \<and> subscribed_phase (construction j)
            then auth_listener (AuthStateChangedEvent (auth_state (owner v))) (joint_prog j) else joint_prog j)"
    and "bus_listeners listeners (am_bus (owner v)) = bus_listeners listeners (am_bus (owner (world j)))"
proof -
  have "one_update D (owner (world j)) (owner v)" using manager_step_update [OF step life_invD(2) [OF inv]] by simp
  then consider "auth_view (owner v) = auth_view (owner (world j))"
    | st where "auth_state (owner (world j)) \<noteq> st"
        "auth_view (owner v) = (st, Publish D (AuthStateChangedEvent st) (am_bus (owner (world j))) (joint_prog j))"
    unfolding one_update_def
  proof (elim disjE exE)
    fix st
    assume "auth_view (owner v) = publish_view D False st (auth_view (owner (world j)))"
    then show thesis using that by (cases "auth_state (owner (world j)) = st") (simp_all add: publish_view_def auth_view_def)
  qed (rule that(1))
  then have "am_prog (owner v) =
           (if auth_state (owner v) \<noteq> auth_state (owner (world j)) \<and> subscribed_phase (construction j)
            then auth_listener (AuthStateChangedEvent (auth_state (owner v))) (joint_prog j) else joint_prog j) \<and>
     bus_listeners listeners (am_bus (owner v)) = bus_listeners listeners (am_bus (owner (world j)))"
  proof cases
    case 1
    then show ?thesis by (simp add: auth_view_def)
  next
    case (2 st)
    then obtain "auth_state (owner v) = st" and p: "(am_bus (owner v), am_prog (owner v)) =
        Publish D (AuthStateChangedEvent st) (am_bus (owner (world j))) (joint_prog j)"
      by (simp add: auth_view_def)
    moreover note Publish_by_listeners [OF laws, of "AuthStateChangedEvent st" "am_bus (owner (world j))" "joint_prog j"]
    ultimately show ?thesis using 2(1) by (simp add: p [symmetric] life_invD(5) [OF inv])
  qed
  then show "am_prog (owner v) =
           (if auth_state (owner v) \<noteq> auth_state (owner (world j)) \<and> subscribed_phase (construction j)
            then auth_listener (AuthStateChangedEvent (auth_state (owner v))) (joint_prog j) else joint_prog j)"
    and "bus_listeners listeners (am_bus (owner v)) = bus_listeners listeners (am_bus (owner (world j)))" by blast+
qed

lemma world_inv_frame [simp]:
  "world_inv D (set_prog a w) = world_inv D w"
  "last_events bus = last_events (am_bus (owner w)) \<Longrightarrow> world_inv D (set_bus bus w) = world_inv D w"
  by (simp_all add: world_inv_def set_prog_def set_bus_def announced_def LastEvent_def)

lemma owner_frame [simp]:
  "am_prog (owner (set_prog a w)) = a" "am_bus (owner (set_prog a w)) = am_bus (owner w)"
  "auth_state (owner (set_prog a w)) = auth_state (owner w)" "am_prog (owner (set_bus bus w)) = am_prog (owner w)"
  "am_bus (owner (set_bus bus w)) = bus" "auth_state (owner (set_bus bus w)) = auth_state (owner w)"
  by (simp_all add: set_prog_def set_bus_def)

lemma life_inv_step:
  assumes "joint_step undisturbed D cd backoff j k" and laws: "eventpp_laws D listeners" and inv: "life_inv D listeners j"
  shows "life_inv D listeners k"
  using assms(1)
proof cases
  case (manager v)
  then show ?thesis
    using inv world_inv_step [OF manager(2) life_invD(1) [OF inv]] manager_step_effect(2) [OF laws inv manager(2)]
    by (simp add: life_inv_def)
next
  case (subscribe bus tok)
  have ls: "bus_listeners listeners (am_bus (owner (world j))) = []"
    using inv subscribe(2) by (simp add: life_inv_def subscribed_phase_def)
  note subscribe_client_effect [OF laws ls subscribe(3) [unfolded life_invD(4) [OF inv subscribe(2)]]]
  then show ?thesis using subscribe(1) life_invD(1) [OF inv] by (simp add: life_inv_def subscribed_phase_def)
next
  case (unsubscribe bus tok)
  then obtain h where h: "auth_subscription j = live_token h" "bus_listeners listeners (am_bus (owner (world j))) = [(h, auth_listener)]"
    using inv by (auto simp: life_inv_def subscribed_phase_def)
  note unsubscribe_client_effect(2,3) [OF laws h(2) unsubscribe(4) [unfolded h(1)]]
  then show ?thesis using unsubscribe(1) life_invD(1) [OF inv] by (simp add: life_inv_def subscribed_phase_def)
qed (use inv in \<open>auto simp: life_inv_def subscribed_phase_def\<close>)

lemma life_inv_start:
  assumes laws: "eventpp_laws D listeners" and "bus_listeners listeners bus = []"
  shows "life_inv D listeners (start_joint D F bus c)"
    and "auth_state (owner (world (start_joint D F bus c))) = State_kUnknown"
    and "joint_prog (start_joint D F bus c) = blank_agent c"
proof -
  let ?w = "new_AuthManager D F bus (blank_agent c)"
  have "auth_view (owner ?w) = publish_view D True State_kUnknown (State_kUnknown, bus, blank_agent c)"
    by (simp add: new_AuthManager_def auth_view_update SetConnectionCallback_def new_AuthClient_def)
       (simp add: auth_view_def)
  then obtain st: "auth_state (owner ?w) = State_kUnknown" and "(am_bus (owner ?w), am_prog (owner ?w)) =
      Publish D (AuthStateChangedEvent State_kUnknown) bus (blank_agent c)"
    by (simp add: auth_view_def publish_view_def)
  moreover from this(2) have prog: "am_prog (owner ?w) = blank_agent c"
      and "bus_listeners listeners (am_bus (owner ?w)) = []"
    using Publish_by_listeners [OF laws, of "AuthStateChangedEvent State_kUnknown" bus "blank_agent c"] assms(2)
    by (metis (no_types, lifting) fold_simps(1) fst_conv snd_conv)+
  moreover have "connection_callback ?w = Some (HandleConnection D)"
    by (simp add: new_AuthManager_def SetConnectionCallback_def)
  ultimately show "life_inv D listeners (start_joint D F bus c)"
    using new_AuthManager_frame(6) [of D F bus "blank_agent c"]
    by (simp add: life_inv_def start_joint_def world_inv_def subscribed_phase_def)
  show "auth_state (owner (world (start_joint D F bus c))) = State_kUnknown"
    and "joint_prog (start_joint D F bus c) = blank_agent c"
    using st prog by (simp_all add: start_joint_def)
qed

lemma life_inv_reachable:
  assumes "joint_reachable undisturbed D cd backoff (start_joint D F bus c) j"
    and "eventpp_laws D listeners" and "bus_listeners listeners bus = []"
  shows "life_inv D listeners j"
  using assms(1)
proof (induction rule: joint_reachable.induct)
  case init
  show ?case by (rule life_inv_start(1) [OF assms(2,3)])
next
  case (step j k)
  show ?case by (rule life_inv_step [OF step.hyps(2) assms(2) step.IH])
qed

subsection \<open>The gate\<close>

text \<open>
  While it is built the agent has nothing but its features, in the end those the state allows; when it
  runs it is in a state of a run of its own, still with the features the state allows.
\<close>

fun joint_phase ::
  "(nat \<Rightarrow> int) \<Rightarrow> callback_client \<Rightarrow> FeatureToggles \<Rightarrow> construction \<Rightarrow> AuthState \<Rightarrow> agent \<Rightarrow> bool" where
  "joint_phase backoff c feats NotBuilt st a \<longleftrightarrow> a = building c feats"
| "joint_phase backoff c feats Subscribed st a \<longleftrightarrow> (\<exists>g. a = building c g)"
| "joint_phase backoff c feats (HasRead seen) st a \<longleftrightarrow> (\<exists>g. a = building c g) \<and> seen = Some (AuthStateChangedEvent st)"
| "joint_phase backoff c feats Built st a \<longleftrightarrow> a = building c (gated st feats)"
| "joint_phase backoff c feats Running st a \<longleftrightarrow>
     reachable backoff a \<and> requested_features (client a) = feats \<and> active_features (client a) = gated st feats"
| "joint_phase backoff c feats _ st a \<longleftrightarrow> True"

definition gate_joint :: "(nat \<Rightarrow> int) \<Rightarrow> callback_client \<Rightarrow> FeatureToggles \<Rightarrow> ('d, 'h) joint \<Rightarrow> bool" where
  "gate_joint backoff c feats j \<longleftrightarrow> joint_phase backoff c feats (construction j) (auth_state (owner (world j))) (joint_prog j)"

lemma reachable_step: "reachable backoff a \<Longrightarrow> agent_step backoff a b \<Longrightarrow> reachable backoff b"
  unfolding reachable_def by (meson rtranclp.rtrancl_into_rtrancl)

text \<open>A new state is published: the phase holds with it.\<close>

lemma joint_phase_publish:
  assumes phase: "joint_phase backoff (unset_client i opts feats tmp) feats k s a" and "\<forall>seen. k \<noteq> HasRead seen"
    and "auth_out a = [] \<or> b = a"
    and b: "b = (if subscribed_phase k then auth_listener (AuthStateChangedEvent st) a else a)"
  shows "joint_phase backoff (unset_client i opts feats tmp) feats k st b"
proof -
  let ?c = "unset_client i opts feats tmp"
  note unset = unset_client_facts [of i opts feats tmp]
  have build: "auth_listener (AuthStateChangedEvent st) (building ?c g) = building ?c (gated st feats)" for g
    using building_listener [OF unset(3,4,5,2)] by simp
  show ?thesis
  proof (cases k)
    case Running
    with phase b have a: "reachable backoff a" "requested_features (client a) = feats" "b = auth_listener (AuthStateChangedEvent st) a"
      by (simp_all add: subscribed_phase_def)
    have "reachable backoff b"
      using a(1,3) assms(3) reachable_step [OF a(1) auth_listener_step] by auto
    then show ?thesis using Running a auth_listener_features [of "AuthStateChangedEvent st" a] by simp
  qed (use phase b build assms(2) in \<open>auto simp: subscribed_phase_def\<close>)
qed

lemma set_gate_building:
  "set_gate (Some (AuthStateChangedEvent st)) ((unset_client i opts feats tmp)\<lparr>active_features := g\<rparr>) =
     (unset_client i opts feats tmp)\<lparr>active_features := gated st feats\<rparr>"
  using unset_client_facts [of i opts feats tmp]
  by (simp add: set_gate_def OnAuthStateChanged_def ApplyFeatureUpdate_def apply_unset event_toggles_def gated_def)

lemma built_reachable:
  "reachable backoff (initial_agent ((unset_client i opts feats tmp)\<lparr>active_features := gated st feats\<rparr>))"
  unfolding reachable_def new_client_gated [symmetric] by blast

lemma gate_joint_step:
  assumes step: "joint_step True D cd backoff j k" and laws: "eventpp_laws D listeners" and life: "life_inv D listeners j"
    and inv: "gate_joint backoff (unset_client i opts feats tmp) feats j"
  shows "gate_joint backoff (unset_client i opts feats tmp) feats k"
  using step
proof cases
  case (manager v)
  note eff = manager_step_effect(1) [OF laws life manager(2)]
  show ?thesis
  proof (cases "auth_state (owner v) = auth_state (owner (world j))")
    case True
    with eff inv manager(1) show ?thesis by (simp add: gate_joint_def)
  next
    case False
    with manager eff show ?thesis
      using joint_phase_publish [OF inv [unfolded gate_joint_def], of "am_prog (owner v)" "auth_state (owner v)"]
      by (auto simp: gate_joint_def)
  qed
next
  case (run)
  have "client (initial_agent c) = Run_begin (c\<lparr>c_running := True\<rparr>)" for c by (simp add: initial_agent_def)
  moreover have "requested_features (Run_begin c) = requested_features c" "active_features (Run_begin c) = active_features c" for c :: callback_client
    by (simp_all add: Run_begin_def)
  ultimately show ?thesis
    using run inv unset_client_facts(2) [of i opts feats tmp] by (simp add: gate_joint_def built_reachable)
next
  case (agent a)
  have "reachable backoff a" if "construction j = Running"
    using that inv reachable_step [OF _ agent(3)] by (simp add: gate_joint_def)
  moreover note agent_step_features [OF agent(3,4)]
  ultimately show ?thesis using agent inv by (auto simp: gate_joint_def)
next
  case (apply_last seen a)
  then show ?thesis using inv by (auto simp: gate_joint_def set_gate_building building_again)
qed (use inv life_invD(3) [OF life] in \<open>auto simp: gate_joint_def\<close>)

section \<open>What the whole promises\<close>

lemma gate_joint_reachable:
  assumes "joint_reachable True D cd backoff (start_joint D F bus (unset_client i opts feats tmp)) j"
    and "eventpp_laws D listeners" and "bus_listeners listeners bus = []"
  shows "gate_joint backoff (unset_client i opts feats tmp) feats j"
  using assms(1)
proof (induction rule: joint_reachable.induct)
  case init
  let ?c = "unset_client i opts feats tmp"
  have "?c\<lparr>active_features := active_features ?c\<rparr> = ?c" by simp
  then have "?c\<lparr>active_features := feats\<rparr> = ?c" unfolding unset_client_facts(1) by (simp only:)
  then show ?case
    using life_inv_start(2,3) [OF assms(2,3)] by (simp add: gate_joint_def start_joint_def building_def)
next
  case (step j k)
  show ?case by (rule gate_joint_step [OF step.hyps(2) assms(2) life_inv_reachable [OF step.hyps(1) assms(2,3)] step.IH])
qed

lemma restricted_gate:
  assumes "gate_inv c" and "active_features c = RestrictedFeatures"
  shows "task_queue c = []" and "current_task c \<noteq> nullptr \<Longrightarrow> cancel_requested (heap c (current_task c))"
proof -
  have "\<not> ptr_allowed c p" for p
    by (simp add: ptr_allowed_def assms(2) RestrictedFeatures_def IsTaskAllowed_def)
  with assms(1) show "task_queue c = []" and "current_task c \<noteq> nullptr \<Longrightarrow> cancel_requested (heap c (current_task c))"
    by (auto simp: gate_inv_def)
qed


text \<open>
  C27. Every event reaches the client as long as it is there and none afterwards: a step of the manager (a
  message, the end of a stream, a call of the program) that changes the authorization state makes the
  subscribed client adapt its features to the new state, exactly once; any other step leaves the agent
  alone, and so does every step before the subscription and after the destructor, although the
  manager outlives the client. This also holds of the runs with an event between reading and applying.
\<close>

theorem events_reach_living_client:
  assumes "joint_reachable undisturbed D cd backoff (start_joint D F bus c) j"
    and "eventpp_laws D listeners" and "bus_listeners listeners bus = []" and "manager_step D cd (world j) v"
  shows "am_prog (owner v) =
           (if auth_state (owner v) \<noteq> auth_state (owner (world j)) \<and> construction j \<noteq> NotBuilt \<and> construction j \<noteq> Destroyed
            then auth_listener (AuthStateChangedEvent (auth_state (owner v))) (am_prog (owner (world j)))
            else am_prog (owner (world j)))"
  using manager_step_effect(1) [OF assms(2) life_inv_reachable [OF assms(1-3)] assms(4)]
  by (simp add: subscribed_phase_def)

section \<open>Examples\<close>

type_synonym joint_dispatcher_state = "nat \<times> (nat \<times> (AuthStateChangedEvent \<Rightarrow> agent \<Rightarrow> agent)) list"

definition silent_bus :: "joint_dispatcher_state event_bus" where
  "silent_bus = \<lparr>dispatcher_state = (0, []), last_events = (\<lambda>_. None)\<rparr>"

definition plain_client :: callback_client where
  "plain_client = unset_client ''a'' default_LogOptions default_FeatureToggles None"

definition first_world :: "(joint_dispatcher_state, agent) auth_world" where
  "first_world = new_AuthManager list_dispatcher empty_fs silent_bus (blank_agent plain_client)"

definition waiting_world :: "(joint_dispatcher_state, agent) auth_world" where
  "waiting_world = (StreamLoop_step True True ^^ 3) (AuthManager_Start list_dispatcher tiny_codec 0 first_world)"

lemma first_world_facts:
  "stream_thread first_world = None" "auth_out (am_prog (owner first_world)) = []"
  by (simp_all add: first_world_def start_joint_def new_AuthManager_frame)
     (simp add: new_AuthManager_def SetConnectionCallback_def new_AuthClient_def UpdateAuthState_def Publish_def
        list_dispatcher_def silent_bus_def blank_agent_def initial_agent_def)

lemma waiting_world_facts:
  "calls waiting_world = {0}" "calls_done waiting_world = {}" "\<not> reactor_finished waiting_world 0"
  "owner waiting_world = \<lparr>am_mode = Mode_kOnline, auth_state = State_kUnknown, persistence_file = '''', am_fs = empty_fs,
     am_bus = silent_bus\<lparr>last_events := (\<lambda>_. None)(kAuthStateChanged := Some (AuthStateChangedEvent State_kUnknown))\<rparr>,
     am_prog = blank_agent plain_client\<rparr>"
  by (simp_all add: waiting_world_def first_world_def start_joint_def new_AuthManager_def with_owner_def
        SetConnectionCallback_def new_AuthClient_def UpdateAuthState_def Publish_def list_dispatcher_def silent_bus_def
        AuthManager_Start_def AuthManager_SetMode_def Auth_Start_def numeral_3_eq_3 StreamLoop_step_def Loop_top_def
        Loop_create_def Loop_start_def Auth_Reactor_Start_def)

type_synonym example_joint = "(joint_dispatcher_state, nat) joint"

abbreviation example_start :: example_joint where
  "example_start \<equiv> start_joint list_dispatcher empty_fs silent_bus plain_client"

abbreviation example_run :: "bool \<Rightarrow> example_joint \<Rightarrow> bool" where
  "example_run undisturbed \<equiv> joint_reachable undisturbed list_dispatcher tiny_codec no_backoff example_start"

lemma example_manager:
  assumes "example_run u j" and "manager_step list_dispatcher tiny_codec (world j) v"
    and "am_prog (owner v) = joint_prog j \<or> auth_out (joint_prog j) = []"
    and "u \<longrightarrow> (\<forall>seen. construction j \<noteq> HasRead seen)"
  shows "example_run u (j\<lparr>world := v\<rparr>)"
  by (rule joint_reachable.step [OF assms(1)]) (rule joint_step.manager [OF assms(2-4)])

lemma example_loop:
  assumes "example_run u j" and "construction j = NotBuilt"
  shows "example_run u (j\<lparr>world := (StreamLoop_step True True ^^ n) (world j)\<rparr>)"
proof (induction n)
  case 0
  show ?case using assms(1) by simp
next
  case (Suc n)
  let ?w = "(StreamLoop_step True True ^^ n) (world j)"
  have "example_run u ((j\<lparr>world := ?w\<rparr>)\<lparr>world := StreamLoop_step True True ?w\<rparr>)"
    by (rule example_manager [OF Suc]) (simp_all add: manager_step.loop thread_frame assms(2))
  then show ?case by simp
qed

lemma example_waiting: "example_run u \<lparr>world = waiting_world, construction = NotBuilt, auth_subscription = default_token\<rparr>"
proof -
  let ?w = "AuthManager_Start list_dispatcher tiny_codec 0 first_world"
  have s: "world example_start = first_world" "construction example_start = NotBuilt"
    by (simp_all add: first_world_def start_joint_def)
  have "manager_step list_dispatcher tiny_codec first_world ?w"
    by (rule manager_step.start) (simp add: first_world_facts)
  then have "example_run u (example_start\<lparr>world := ?w\<rparr>)"
    by (intro example_manager [OF joint_reachable.init]) (simp_all add: s first_world_facts)
  from example_loop [OF this, of 3] show ?thesis by (simp add: s(2) waiting_world_def) (simp add: start_joint_def)
qed

definition subscribed_world :: "(joint_dispatcher_state, agent) auth_world" where
  "subscribed_world = set_bus ((am_bus (owner waiting_world))\<lparr>dispatcher_state := (1, [(0, auth_listener)])\<rparr>) waiting_world"

lemma subscribed_world_facts:
  "calls subscribed_world = {0}" "calls_done subscribed_world = {}" "\<not> reactor_finished subscribed_world 0"
  "am_prog (owner subscribed_world) = blank_agent plain_client" "am_mode (owner subscribed_world) = Mode_kOnline"
  "persistence_file (owner subscribed_world) = ''''" "auth_state (owner subscribed_world) = State_kUnknown"
  "LastEvent (am_bus (owner subscribed_world)) = Some (AuthStateChangedEvent State_kUnknown)"
  "dispatcher_state (am_bus (owner subscribed_world)) = (1, [(0, auth_listener)])"
  unfolding subscribed_world_def set_bus_def
  by (simp_all add: with_owner_def waiting_world_facts LastEvent_def)

lemma waiting_subscribe:
  "subscribe_client list_dispatcher default_token (am_bus (owner waiting_world)) =
     ((am_bus (owner waiting_world))\<lparr>dispatcher_state := (1, [(0, auth_listener)])\<rparr>, live_token 0)"
  by (simp add: waiting_world_facts subscribe_client_def Subscribe_def Token_assign_def Token_Unsubscribe_def MoveFrom_def
        default_token_def live_token_def silent_bus_def list_dispatcher_def)

lemma example_subscribed:
  "example_run u \<lparr>world = subscribed_world, construction = HasRead (Some (AuthStateChangedEvent State_kUnknown)),
     auth_subscription = live_token 0\<rparr>"
proof -
  have "example_run u \<lparr>world = subscribed_world, construction = Subscribed, auth_subscription = live_token 0\<rparr>"
    using joint_reachable.step [OF example_waiting joint_step.subscribe] waiting_subscribe
    by (simp add: subscribed_world_def del: One_nat_def)
  from joint_reachable.step [OF this joint_step.read_last] show ?thesis by (simp add: subscribed_world_facts)
qed

text \<open>A valid license arrives.\<close>

lemma licensed:
  assumes "calls w = {0}" "calls_done w = {}" "\<not> reactor_finished w 0" "am_mode (owner w) = Mode_kOnline"
    "persistence_file (owner w) = ''''" "auth_state (owner w) = State_kUnknown"
    "dispatcher_state (am_bus (owner w)) = (1, [(0, auth_listener)])"
    and v: "v = receive list_dispatcher tiny_codec 50 0 True (LicenseRespMsg license) w"
  shows "manager_step list_dispatcher tiny_codec w v" and "auth_state (owner v) = State_kOnline"
    and "am_prog (owner v) = auth_listener (AuthStateChangedEvent State_kOnline) (am_prog (owner w))"
proof -
  show "manager_step list_dispatcher tiny_codec w v" unfolding v by (rule manager_step.message) (simp_all add: assms)
  have "owner v = UpdateAuthState list_dispatcher State_kOnline False (owner w)"
    using assms(3-6)
    by (simp add: v receive_def OnReadDone_def Auth_SetMessageCallback_def HandleMessage_def Let_def PersistMessage_def
          license_def good_asset_def IsAssetValid_def)
  then show "auth_state (owner v) = State_kOnline"
    and "am_prog (owner v) = auth_listener (AuthStateChangedEvent State_kOnline) (am_prog (owner w))"
    using assms(6,7) by (simp_all add: UpdateAuthState_def Publish_def list_dispatcher_def)
qed

definition gate_world :: "agent \<Rightarrow> (joint_dispatcher_state, agent) auth_world" where
  "gate_world a = set_prog a subscribed_world"

lemma gate_world_facts:
  "calls (gate_world a) = {0}" "calls_done (gate_world a) = {}" "\<not> reactor_finished (gate_world a) 0"
  "am_prog (owner (gate_world a)) = a" "am_mode (owner (gate_world a)) = Mode_kOnline"
  "persistence_file (owner (gate_world a)) = ''''" "auth_state (owner (gate_world a)) = State_kUnknown"
  "dispatcher_state (am_bus (owner (gate_world a))) = (1, [(0, auth_listener)])"
  by (simp_all add: gate_world_def set_prog_def with_owner_def subscribed_world_facts del: One_nat_def)

lemma set_prog_twice [simp]: "set_prog a (set_prog b w) = set_prog a w"
  by (simp add: set_prog_def with_owner_def)

definition running_agent :: agent where
  "running_agent = initial_agent (plain_client\<lparr>active_features := RestrictedFeatures\<rparr>)"

lemma example_running: "example_run u \<lparr>world = gate_world running_agent, construction = Running, auth_subscription = live_token 0\<rparr>"
proof -
  let ?a = "blank_agent plain_client" and ?seen = "Some (AuthStateChangedEvent State_kUnknown)"
  have gate: "set_gate ?seen plain_client = plain_client\<lparr>active_features := RestrictedFeatures\<rparr>"
    by (simp add: plain_client_def set_gate_def OnAuthStateChanged_def ApplyFeatureUpdate_def event_toggles_def
          apply_unset unset_client_facts)
  have "example_run u \<lparr>world = gate_world (?a\<lparr>client := set_gate ?seen (client ?a)\<rparr>), construction = Built,
      auth_subscription = live_token 0\<rparr>"
    using joint_reachable.step [OF example_subscribed joint_step.apply_last [OF _ refl]]
    by (simp add: subscribed_world_facts gate_world_def)
  from joint_reachable.step [OF this joint_step.run] show ?thesis
    by (simp add: gate_world_facts gate_world_def) (simp add: blank_agent_def gate running_agent_def)
qed


theorem events_reach_living_client_witness:
  "client (am_prog (owner (receive list_dispatcher tiny_codec 50 0 True (LicenseRespMsg license) (gate_world running_agent)))) =
     (client running_agent)\<lparr>active_features := default_FeatureToggles\<rparr>"
proof -
  define v where "v = receive list_dispatcher tiny_codec 50 0 True (LicenseRespMsg license) (gate_world running_agent)"
  note l = licensed [OF gate_world_facts(1-3,5-8) v_def]
  have none: "bus_listeners (\<lambda>(n, ls) ty. filter (\<lambda>(k, cb). k < n) ls) silent_bus = []"
    by (simp add: bus_listeners_def silent_bus_def)
  have "am_prog (owner v) = auth_listener (AuthStateChangedEvent State_kOnline) running_agent"
    using events_reach_living_client [OF example_running list_dispatcher_laws none, of v] l(1,2)
    by (simp add: gate_world_facts)
  then show ?thesis
    unfolding v_def [symmetric]
    by (simp add: auth_listener_def running_agent_def initial_agent_def Run_begin_def event_toggles_def
          apply_unset plain_client_def unset_client_facts)
qed

text \<open>
  C39. The assumption is needed: the constructor subscribes, then reads the last event, then applies it,
  with nothing to keep an event from being published in between. There is a run in which a license
  arrives there: the client hears of it, applies the older event after it, and runs with everything
  refused although the manager is online and the bus says so.
\<close>

theorem stale_event_closes_gate:
  "\<exists>j. joint_reachable False list_dispatcher tiny_codec no_backoff
         (start_joint list_dispatcher empty_fs silent_bus (unset_client ''a'' default_LogOptions default_FeatureToggles None)) j \<and>
     construction j = Running \<and> auth_state (owner (world j)) = State_kOnline \<and>
     active_features (client (am_prog (owner (world j)))) = RestrictedFeatures"
proof -
  let ?seen = "Some (AuthStateChangedEvent State_kUnknown)"
  define v where "v = receive list_dispatcher tiny_codec 50 0 True (LicenseRespMsg license) subscribed_world"
  note l = licensed [OF subscribed_world_facts(1-3,5-7,9) v_def]
  let ?c = "set_gate ?seen (client (am_prog (owner v)))"
  let ?built = "set_prog ((am_prog (owner v))\<lparr>client := ?c\<rparr>) v"
  have "auth_out (am_prog (owner subscribed_world)) = []"
    by (simp add: subscribed_world_facts blank_agent_def initial_agent_def)
  then have "example_run False \<lparr>world = v, construction = HasRead ?seen, auth_subscription = live_token 0\<rparr>"
    using example_manager [OF example_subscribed, of v False] l(1) by simp
  from joint_reachable.step [OF this joint_step.apply_last [OF _ refl]]
  have "example_run False \<lparr>world = ?built, construction = Built, auth_subscription = live_token 0\<rparr>" by simp
  from joint_reachable.step [OF this joint_step.run]
  have "example_run False \<lparr>world = set_prog (initial_agent ?c) v, construction = Running, auth_subscription = live_token 0\<rparr>"
    by (simp add: set_prog_def with_owner_def)
  moreover have "active_features (client (initial_agent ?c)) = RestrictedFeatures"
    by (simp add: initial_agent_def Run_begin_def set_gate_def OnAuthStateChanged_def ApplyFeatureUpdate_features event_toggles_def)
  ultimately show ?thesis
    using l(2) unfolding plain_client_def
    by (intro exI [of _ "\<lparr>world = set_prog (initial_agent ?c) v, construction = Running, auth_subscription = live_token 0\<rparr>"]) (simp add: set_prog_def)
qed

end
