(* ===== verification/Log_Properties.thy ===== *)
theory Log_Properties
  imports Log_Ops
begin

text \<open>
  What log filtering promises: the sources it reads are under the log root, the output is exactly
  the selected lines of these sources, the limit is kept, and no temporary file stays behind.
\<close>

section \<open>A reference for the output\<close>

text \<open>The sources a list of candidates leads to, and the lines selected from them, in scan order.\<close>

definition sources :: "fs \<Rightarrow> Root \<Rightarrow> string list \<Rightarrow> string list" where
  "sources F root cs = concat (map (\<lambda>c. case candidate_source F root c of Inr (Some p) \<Rightarrow> [p] | _ \<Rightarrow> []) cs)"

definition source_lines :: "fs \<Rightarrow> LogFilterSpec \<Rightarrow> string \<Rightarrow> string list" where
  "source_lines F spec p = (case open_in F p of None \<Rightarrow> [] | Some d \<Rightarrow> filter (line_selected spec) (getlines d))"

definition selected_lines :: "fs \<Rightarrow> Root \<Rightarrow> LogFilterSpec \<Rightarrow> string list \<Rightarrow> string list" where
  "selected_lines F root spec cs = concat (map (source_lines F spec) (sources F root cs))"

definition output_text :: "string list \<Rightarrow> string" where
  "output_text ls = concat (map output_line ls)"

lemma output_text_simps [simp]:
  "output_text [] = []" "output_text (l # ls) = output_line l @ output_text ls"
  "output_text (ls @ ms) = output_text ls @ output_text ms"
  by (simp_all add: output_text_def)

definition within_limit :: "LogFilterSpec \<Rightarrow> int \<Rightarrow> bool" where
  "within_limit spec n \<longleftrightarrow> lf_max_output_bytes spec = 0 \<or> n \<le> as_int64 (lf_max_output_bytes spec)"

section \<open>Copying\<close>

definition write_lines :: "string list \<Rightarrow> copy_state \<Rightarrow> copy_state" where
  "write_lines ls st = fold write_line ls st"

lemma write_lines_simps [simp]:
  "write_lines [] st = st" "write_lines (l # ls) st = write_lines ls (write_line l st)"
  by (simp_all add: write_lines_def)

lemma write_lines_metrics:
  "m_total_size (cs_metrics (write_lines ls st)) = m_total_size (cs_metrics st) + int (length (output_text ls)) \<and>
   m_total_lines (cs_metrics (write_lines ls st)) = m_total_lines (cs_metrics st) + int (length ls) \<and>
   m_source_files (cs_metrics (write_lines ls st)) = m_source_files (cs_metrics st) \<and>
   m_temp_path (cs_metrics (write_lines ls st)) = m_temp_path (cs_metrics st) \<and>
   cs_out (write_lines ls st) = cs_out st"
  by (induction ls arbitrary: st) (simp_all add: write_line_def)

lemma write_lines_fs:
  "nodes (cs_fs st) (cs_out st) = Some (File d) \<Longrightarrow>
   same_shape (cs_fs st) (cs_fs (write_lines ls st)) \<and>
   nodes (cs_fs (write_lines ls st)) = (nodes (cs_fs st))(cs_out st \<mapsto> File (d @ output_text ls))"
proof (induction ls arbitrary: st d)
  case Nil
  then show ?case by auto
next
  case (Cons l ls)
  have w: "nodes (cs_fs (write_line l st)) = (nodes (cs_fs st))(cs_out st \<mapsto> File (d @ output_line l))"
    "same_shape (cs_fs st) (cs_fs (write_line l st))" "cs_out (write_line l st) = cs_out st"
    using Cons.prems by (simp_all add: write_line_def append_data_nodes append_data_shape)
  from Cons.IH [of "write_line l st" "d @ output_line l"] w show ?case
    using same_shape_trans by fastforce
qed

text \<open>With every write succeeding, copying stops only at the limit.\<close>

lemma copy_lines_spec:
  "\<lbrakk>\<And>k. write_ok k; within_limit spec (m_total_size (cs_metrics st))\<rbrakk> \<Longrightarrow>
   (let sel = filter (line_selected spec) ls
    in if within_limit spec (m_total_size (cs_metrics st) + int (length (output_text sel)))
       then copy_lines write_ok spec ls st = (Status_OK, write_lines sel st)
       else \<exists>pre. copy_lines write_ok spec ls st =
              (Status RESOURCE_EXHAUSTED ''output exceeds limit'', write_lines pre st))"
proof (induction ls arbitrary: st)
  case Nil
  then show ?case by (simp add: Let_def)
next
  case (Cons l ls)
  show ?case
  proof (cases "line_selected spec l")
    case False
    with Cons show ?thesis by (simp add: Let_def)
  next
    case sel: True
    have lim: "enforce_limit spec (m_total_size (cs_metrics st)) (length (output_line l)) \<longleftrightarrow>
        within_limit spec (m_total_size (cs_metrics st) + int (length (output_line l)))"
      by (simp add: enforce_limit_def within_limit_def)
    have step: "m_total_size (cs_metrics (write_line l st)) = m_total_size (cs_metrics st) + int (length (output_line l))"
      by (simp add: write_line_def)
    show ?thesis
    proof (cases "within_limit spec (m_total_size (cs_metrics st) + int (length (output_line l)))")
      case False
      then have "\<not> within_limit spec (m_total_size (cs_metrics st) + int (length (output_line l)) + int k)" for k
        by (auto simp: within_limit_def)
      then have "\<not> within_limit spec (m_total_size (cs_metrics st) +
          int (length (output_text (filter (line_selected spec) (l # ls)))))"
        using sel by (simp add: add.assoc)
      moreover have "copy_lines write_ok spec (l # ls) st =
          (Status RESOURCE_EXHAUSTED ''output exceeds limit'', write_lines [] st)"
        using sel lim False by simp
      ultimately show ?thesis by (auto simp: Let_def simp del: copy_lines.simps intro: exI [of _ "[]"])
    next
      case True
      have ih: "copy_lines write_ok spec (l # ls) st = copy_lines write_ok spec ls (write_line l st)"
        using sel lim True Cons.prems(1) by simp
      have "within_limit spec (m_total_size (cs_metrics (write_line l st)))" using True step by simp
      from Cons.IH [OF Cons.prems(1) this] sel step show ?thesis
        unfolding ih by (simp add: Let_def add.assoc) (metis write_lines_simps(2))
    qed
  qed
qed

lemma candidate_source_shape:
  assumes "same_shape F G"
  shows "candidate_source G root c = candidate_source F root c"
proof -
  have eqs: "weakly_canonical G = weakly_canonical F" "fs_exists G = fs_exists F" "fs_relative G = fs_relative F"
    using assms by (simp_all add: fun_eq_iff weakly_canonical_shape fs_exists_shape fs_relative_shape)
  show ?thesis unfolding candidate_source_def inside_root_def eqs by (rule refl)
qed

text \<open>
  The state while candidates are scanned: the temporary file holds what has been written, and
  everything else is as it was in \<open>F\<close>, the file system with the empty temporary file.
\<close>

definition copying :: "fs \<Rightarrow> location \<Rightarrow> copy_state \<Rightarrow> string \<Rightarrow> bool" where
  "copying F out st d \<longleftrightarrow> cs_out st = out \<and> same_shape F (cs_fs st) \<and> nodes (cs_fs st) = (nodes F)(out \<mapsto> File d) \<and>
     m_total_size (cs_metrics st) = int (length d)"

lemma copying_write_lines:
  assumes "copying F out st d"
  shows "copying F out (write_lines ls st) (d @ output_text ls)"
proof -
  have "nodes (cs_fs st) (cs_out st) = Some (File d)" using assms by (simp add: copying_def)
  from write_lines_fs [OF this, of ls] write_lines_metrics [of ls st] assms show ?thesis
    unfolding copying_def using same_shape_trans by auto
qed

lemma copying_source:
  assumes "copying F out st d"
  shows "copying F out (st\<lparr>cs_metrics := (cs_metrics st)\<lparr>m_source_files := fs\<rparr>\<rparr>) d"
  using assms by (simp add: copying_def)

lemma copying_reads:
  assumes "copying F out st d" and "file_status F p \<noteq> Found out"
  shows "open_in (cs_fs st) p = open_in F p"
  using assms by (intro open_in_other [where out = out]) (auto simp: copying_def)

text \<open>
  How a scan ends: with everything selected in the temporary file, or at the limit with part of it.
\<close>

definition copied :: "fs \<Rightarrow> location \<Rightarrow> LogFilterSpec \<Rightarrow> copy_state \<Rightarrow> string \<Rightarrow> string list \<Rightarrow> string list \<Rightarrow>
    outcome \<times> copy_state \<Rightarrow> bool" where
  "copied F out spec st d sel srcs res \<longleftrightarrow>
     m_temp_path (cs_metrics (snd res)) = m_temp_path (cs_metrics st) \<and>
     (if within_limit spec (int (length (d @ output_text sel)))
      then fst res = Returned Status_OK \<and> copying F out (snd res) (d @ output_text sel) \<and>
           m_total_lines (cs_metrics (snd res)) = m_total_lines (cs_metrics st) + int (length sel) \<and>
           m_source_files (cs_metrics (snd res)) = m_source_files (cs_metrics st) @ srcs
      else fst res = Returned (Status RESOURCE_EXHAUSTED ''output exceeds limit'') \<and>
           (\<exists>d'. copying F out (snd res) d'))"

lemma copied_step:
  assumes "copied F out spec st1 (d @ output_text ls) sel srcs res"
    and "m_total_lines (cs_metrics st1) = m_total_lines (cs_metrics st) + int (length ls)"
    and "m_source_files (cs_metrics st1) = m_source_files (cs_metrics st) @ [p]"
    and "m_temp_path (cs_metrics st1) = m_temp_path (cs_metrics st)"
  shows "copied F out spec st d (ls @ sel) (p # srcs) res"
  using assms by (auto simp: copied_def add.assoc)

lemma copy_files_spec:
  assumes writes: "\<And>k. write_ok k" and "copying F out st d" and "within_limit spec (int (length d))"
    and "\<And>c. c \<in> set cs \<Longrightarrow> \<exists>src. candidate_source F root c = Inr src"
    and "\<And>p. p \<in> set (sources F root cs) \<Longrightarrow> file_status F p \<noteq> Found out"
  shows "copied F out spec st d (selected_lines F root spec cs) (sources F root cs) (copy_files write_ok root spec cs st)"
  using assms(2-5)
proof (induction cs arbitrary: st d)
  case Nil
  then show ?case by (simp add: copied_def selected_lines_def sources_def)
next
  case (Cons c cs)
  have shape: "same_shape F (cs_fs st)" using Cons.prems(1) by (simp add: copying_def)
  obtain src where src: "candidate_source F root c = Inr src" using Cons.prems(3) [of c] by auto
  then have src': "candidate_source (cs_fs st) root c = Inr src" using candidate_source_shape [OF shape] by simp
  have rest: "\<And>x. x \<in> set cs \<Longrightarrow> \<exists>src. candidate_source F root x = Inr src"
    "\<And>p. p \<in> set (sources F root cs) \<Longrightarrow> file_status F p \<noteq> Found out"
    using Cons.prems(3,4) by (auto simp: sources_def)
  show ?case
  proof (cases src)
    case None
    have "sources F root (c # cs) = sources F root cs" using src None by (simp add: sources_def)
    with Cons.IH [OF Cons.prems(1,2) rest] src' None show ?thesis by (simp add: selected_lines_def)
  next
    case (Some p)
    have so: "sources F root (c # cs) = p # sources F root cs" using src Some by (simp add: sources_def)
    then have sl: "selected_lines F root spec (c # cs) = source_lines F spec p @ selected_lines F root spec cs"
      by (simp add: selected_lines_def)
    let ?st1 = "st\<lparr>cs_metrics := (cs_metrics st)\<lparr>m_source_files := m_source_files (cs_metrics st) @ [p]\<rparr>\<rparr>"
    have c1: "copying F out ?st1 d" by (rule copying_source [OF Cons.prems(1)])
    have rd: "open_in (cs_fs st) p = open_in F p"
      using Cons.prems(4) [of p] so by (intro copying_reads [OF Cons.prems(1)]) simp
    show ?thesis
    proof (cases "open_in F p")
      case none: None
      have "copy_files write_ok root spec (c # cs) st = copy_files write_ok root spec cs ?st1"
        using src' Some rd none by simp
      moreover have "copied F out spec ?st1 (d @ output_text []) (selected_lines F root spec cs) (sources F root cs)
          (copy_files write_ok root spec cs ?st1)"
        using Cons.IH [OF c1 Cons.prems(2) rest] by simp
      moreover have "source_lines F spec p = []" using none by (simp add: source_lines_def)
      ultimately show ?thesis
        unfolding so sl by (auto intro: copied_step [where ls = "[]", simplified])
    next
      case content: (Some body)
      let ?sel = "filter (line_selected spec) (getlines body)"
      have ss: "source_lines F spec p = ?sel" using content by (simp add: source_lines_def)
      have size: "m_total_size (cs_metrics ?st1) = int (length d)" using c1 by (simp add: copying_def)
      note cl = copy_lines_spec [of write_ok spec ?st1 "getlines body", OF writes]
      show ?thesis
      proof (cases "within_limit spec (int (length (d @ output_text ?sel)))")
        case True
        then have "copy_lines write_ok spec (getlines body) ?st1 = (Status_OK, write_lines ?sel ?st1)"
          using cl Cons.prems(2) size by (simp add: Let_def)
        then have step: "copy_files write_ok root spec (c # cs) st = copy_files write_ok root spec cs (write_lines ?sel ?st1)"
          using src' Some rd content by simp
        have m: "m_total_lines (cs_metrics (write_lines ?sel ?st1)) = m_total_lines (cs_metrics st) + int (length ?sel)"
          "m_source_files (cs_metrics (write_lines ?sel ?st1)) = m_source_files (cs_metrics st) @ [p]"
          "m_temp_path (cs_metrics (write_lines ?sel ?st1)) = m_temp_path (cs_metrics st)"
          using write_lines_metrics [of ?sel ?st1] by simp_all
        from Cons.IH [OF copying_write_lines [OF c1] True rest] m show ?thesis
          unfolding step sl ss so by (rule copied_step)
      next
        case False
        then obtain pre where pre: "copy_lines write_ok spec (getlines body) ?st1 =
            (Status RESOURCE_EXHAUSTED ''output exceeds limit'', write_lines pre ?st1)"
          using cl Cons.prems(2) size by (auto simp: Let_def)
        have "copy_files write_ok root spec (c # cs) st =
            (Returned (Status RESOURCE_EXHAUSTED ''output exceeds limit''), write_lines pre ?st1)"
          using src' Some rd content pre by simp
        moreover have "\<not> within_limit spec (int (length (d @ output_text (selected_lines F root spec (c # cs)))))"
          using False by (auto simp: within_limit_def sl ss)
        moreover have "m_temp_path (cs_metrics (write_lines pre ?st1)) = m_temp_path (cs_metrics st)"
          using write_lines_metrics [of pre ?st1] by simp
        ultimately show ?thesis using copying_write_lines [OF c1, of pre] by (auto simp: copied_def)
      qed
    qed
  qed
qed

section \<open>Containment\<close>

lemma inside_root_prefix:
  assumes "real_dir F (cwd F)" and "file_status F (root_canonical root) = Found bs" and "file_status F p = Found ls"
    and "inside_root F root p"
  shows "prefix bs ls"
proof -
  have "''..'' \<notin> set (lexically_relative (to_path ls) (to_path bs))"
    using assms(4) weakly_canonical_existing [OF assms(2)] weakly_canonical_existing [OF assms(3)]
    by (simp add: inside_root_def fs_relative_def)
  then show ?thesis
    using file_status_real [OF assms(1,2)] file_status_real [OF assms(1,3)]
    by (intro relative_inside) (auto simp: real_loc_def)
qed

text \<open>
  C16. Containment: with a log root that exists, every source the filter reads is a file whose real
  location, after following all symbolic links, lies under the real location of the root, whatever
  the candidates are called. No rotation name, dot-dot or link leads out of it.
\<close>

theorem sources_inside_root:
  assumes "real_dir F (cwd F)" and "root_enabled root" and "file_status F (root_canonical root) = Found bs"
    and "p \<in> set (sources F root cs)"
  shows "\<exists>ls. file_status F p = Found ls \<and> prefix bs ls"
proof -
  obtain c where "candidate_source F root c = Inr (Some p)"
    using assms(4) by (auto simp: sources_def split: sum.splits option.splits)
  then have ex: "fs_exists F p = Inr True" and "inside_root F root p"
    using assms(2) by (auto simp: candidate_source_def split: sum.splits if_splits)
  moreover obtain ls where "file_status F p = Found ls"
    using ex by (auto simp: fs_exists_def split: walk_result.splits if_splits)
  ultimately show ?thesis using inside_root_prefix [OF assms(1,3)] by blast
qed

text \<open>A small file system: a log directory with a rotated log and a link that leads out of it.\<close>

definition demo_line :: "string \<Rightarrow> string" where
  "demo_line msg = log_line ''2025-09-27 11:00:00.250'' ''agent'' ''info'' msg"

definition demo_fs :: fs where
  "demo_fs = empty_fs\<lparr>nodes :=
     [[''var''] \<mapsto> Dir, [''var'', ''log''] \<mapsto> Dir, [''tmp''] \<mapsto> Dir, [''secret''] \<mapsto> File (demo_line ''secret'' @ [CHR 0x0A]),
      [''var'', ''log'', ''a''] \<mapsto> File (demo_line ''one'' @ [CHR 0x0A]), [''var'', ''log'', ''a.1''] \<mapsto> Symlink ''/secret'']\<rparr>"

definition demo_root :: Root where
  "demo_root = \<lparr>root_enabled = True, root_canonical = ''/var/log''\<rparr>"

lemmas fs_eval = path_eval demo_fs_def

lemma demo_status:
  "file_status demo_fs ''/var/log'' = Found [''var'', ''log'']"
  "file_status demo_fs ''/var/log/a'' = Found [''var'', ''log'', ''a'']"
  "file_status demo_fs ''/var/log/a.1'' = Found [''secret'']"
  "file_status demo_fs ''/secret'' = Found [''secret'']"
  by (simp_all add: fs_eval numeral_eq_Suc)

lemma demo_relative:
  "lexically_relative ''/var/log/a'' ''/var/log'' = [''a'']"
  "lexically_relative ''/secret'' ''/var/log'' = [''..'', ''..'', ''secret'']"
  by (simp_all add: lexically_relative_def elems_def is_absolute_def names_def trailing_slash_def slash_def numeral_2_eq_2)

lemma demo_sources: "sources demo_fs demo_root [''/var/log/a'', ''/var/log/a.1''] = [''/var/log/a'']"
proof -
  have p: "to_path [''var'', ''log''] = ''/var/log''" "to_path [''var'', ''log'', ''a''] = ''/var/log/a''" "to_path [''secret''] = ''/secret''"
    by (simp_all add: to_path_def slash_def)
  have w: "weakly_canonical demo_fs ''/var/log'' = Inr ''/var/log''" "weakly_canonical demo_fs ''/var/log/a'' = Inr ''/var/log/a''"
    "weakly_canonical demo_fs ''/var/log/a.1'' = Inr ''/secret''" "weakly_canonical demo_fs ''/secret'' = Inr ''/secret''"
    using demo_status [THEN weakly_canonical_existing] by (simp_all add: p)
  have e: "fs_exists demo_fs ''/var/log/a'' = Inr True" "fs_exists demo_fs ''/secret'' = Inr True"
    by (simp_all add: fs_exists_def demo_status)
  show ?thesis
    by (simp add: sources_def candidate_source_def w e inside_root_def fs_relative_def demo_root_def demo_relative)
qed

theorem sources_inside_root_witness:
  "sources demo_fs demo_root [''/var/log/a'', ''/var/log/a.1''] = [''/var/log/a''] \<and>
   (\<exists>ls. file_status demo_fs ''/var/log/a'' = Found ls \<and> prefix [''var'', ''log''] ls)"
proof -
  have "\<exists>ls. file_status demo_fs ''/var/log/a'' = Found ls \<and> prefix [''var'', ''log''] ls"
    by (rule sources_inside_root [where root = demo_root and cs = "[''/var/log/a'', ''/var/log/a.1'']"])
       (simp add: demo_fs_def empty_fs_def, simp_all add: demo_sources demo_status, simp_all add: demo_root_def demo_status)
  with demo_sources show ?thesis by blast
qed


section \<open>The whole operation\<close>

text \<open>
  How far the preparation of the temporary file got: \<open>F1\<close> with the directory, \<open>F2\<close> with the empty
  file at \<open>loc\<close>, which \<open>path\<close> names.
\<close>

definition temp_basename :: "LogOptions \<Rightarrow> string" where
  "temp_basename opts = (if output_basename opts = '''' then ''logfilter'' else output_basename opts)"

definition temp_ready :: "fs \<Rightarrow> (nat \<Rightarrow> u64) \<Rightarrow> LogOptions \<Rightarrow> fs \<Rightarrow> string \<Rightarrow> location \<Rightarrow> fs \<Rightarrow> bool" where
  "temp_ready F draws opts F1 path loc F2 \<longleftrightarrow>
     (\<exists>dir. ResolveDirectory F (temp_dir opts) = (Inr dir, F1) \<and>
        CreateUniquePath F1 draws dir (temp_basename opts @ ''-'') '''' = Inr path \<and>
        open_out F1 path = Some (loc, F2))"

lemma temp_readyD:
  assumes "temp_ready F draws opts F1 path loc F2"
  shows "fs_exists F1 path = Inr False" and "path \<noteq> []" and "last path \<noteq> slash" and "last path \<noteq> CHR ''.''"
    and "file_status F1 path = Missing loc" and "F2 = F1\<lparr>nodes := (nodes F1)(loc \<mapsto> File [])\<rparr>"
    and "file_status F2 path = Found loc" and "nodes F1 loc = None"
proof -
  from assms obtain dir where c: "CreateUniquePath F1 draws dir (temp_basename opts @ ''-'') '''' = Inr path"
    and o: "open_out F1 path = Some (loc, F2)" by (auto simp: temp_ready_def)
  from c show ex: "fs_exists F1 path = Inr False"
    using unique_loop_spec [of F1 draws 0 1000 dir _ "''''" path] by (simp add: CreateUniquePath_def)
  show "file_status F1 path = Missing loc" "F2 = F1\<lparr>nodes := (nodes F1)(loc \<mapsto> File [])\<rparr>"
    "file_status F2 path = Found loc" "nodes F1 loc = None"
    by (rule open_out_then_read [OF o ex])+
  from c obtain j where "path = candidate_path dir (temp_basename opts @ ''-'') '''' (draws j)"
    using unique_loop_spec [of F1 draws 0 1000 dir _ "''''" path] by (auto simp: CreateUniquePath_def)
  then have pa: "path = path_append dir (temp_basename opts @ ''-'' @ hex16 (draws j))"
    by (simp add: candidate_path_def)
  have h: "hex16 (draws j) \<noteq> []" by (simp add: hex16_def)
  then have l: "last path = last (hex16 (draws j))" and "path \<noteq> []"
    by (auto simp: pa path_append_def)
  then show "path \<noteq> []" by simp
  have "last (hex16 (draws j)) \<in> set (hex16 (draws j))" using h by simp
  with hex16_clean [of "draws j"] hex16_no_dot [of "draws j"]
  show "last path \<noteq> slash" "last path \<noteq> CHR ''.''" unfolding l by metis+
qed

lemma FilterLogsToTemp_ready:
  assumes "temp_ready F draws opts F1 path loc F2"
    and "copy_files write_ok root spec cs
           \<lparr>cs_fs = F2, cs_out = loc, cs_metrics = empty_metrics\<lparr>m_temp_path := path\<rparr>, cs_writes = 0\<rparr> = (res, st)"
  shows "FilterLogsToTemp F draws write_ok root opts spec cs (Some m) = (res, cs_fs st, Some (cs_metrics st))"
proof -
  have "(if output_basename opts = '''' then ''logfilter'' else output_basename opts) = temp_basename opts"
    by (simp add: temp_basename_def)
  with assms show ?thesis by (auto simp: FilterLogsToTemp_def temp_ready_def Let_def)
qed

lemma copying_start:
  assumes "temp_ready F draws opts F1 path loc F2"
  shows "copying F2 loc \<lparr>cs_fs = F2, cs_out = loc, cs_metrics = empty_metrics\<lparr>m_temp_path := path\<rparr>, cs_writes = 0\<rparr> []"
  using temp_readyD(6) [OF assms] by (auto simp: copying_def empty_metrics_def)

lemma copy_lines_copying:
  "copying F out st d \<Longrightarrow> \<exists>ls. snd (copy_lines write_ok spec lines st) = write_lines ls st"
proof (induction lines arbitrary: st d)
  case (Cons l lines)
  have "\<exists>ls. snd (copy_lines write_ok spec lines (write_line l st)) = write_lines ls (write_line l st)"
    using Cons.IH copying_write_lines [OF Cons.prems, of "[l]"] by simp
  then obtain ls where "snd (copy_lines write_ok spec lines (write_line l st)) = write_lines (l # ls) st" by auto
  with Cons show ?case by (auto simp del: write_lines_simps(2) intro: exI [of _ "[]"])
qed (auto intro: exI [of _ "[]"])

text \<open>Whatever happens during the scan, only the temporary file has changed.\<close>

lemma copy_files_copying:
  "copying F out st d \<Longrightarrow>
   \<exists>d'. copying F out (snd (copy_files write_ok root spec cs st)) d' \<and>
        m_temp_path (cs_metrics (snd (copy_files write_ok root spec cs st))) = m_temp_path (cs_metrics st)"
proof (induction cs arbitrary: st d)
  case (Cons c cs)
  show ?case
  proof (cases "candidate_source (cs_fs st) root c")
    case (Inl what)
    with Cons.prems show ?thesis by auto
  next
    case (Inr src)
    show ?thesis
    proof (cases src)
      case None
      with Inr Cons show ?thesis by simp
    next
      case (Some p)
      let ?st1 = "st\<lparr>cs_metrics := (cs_metrics st)\<lparr>m_source_files := m_source_files (cs_metrics st) @ [p]\<rparr>\<rparr>"
      have c1: "copying F out ?st1 d" by (rule copying_source [OF Cons.prems])
      show ?thesis
      proof (cases "open_in (cs_fs st) p")
        case None
        with Inr Some Cons.IH [OF c1] show ?thesis by simp
      next
        case body: (Some body)
        obtain status st2 where st2: "copy_lines write_ok spec (getlines body) ?st1 = (status, st2)" by fastforce
        then obtain ls where ls: "st2 = write_lines ls ?st1"
          using copy_lines_copying [OF c1, of write_ok spec "getlines body"] by auto
        have c2: "copying F out st2 (d @ output_text ls)" unfolding ls by (rule copying_write_lines [OF c1])
        have m: "m_temp_path (cs_metrics st2) = m_temp_path (cs_metrics st)"
          using write_lines_metrics [of ls ?st1] by (simp add: ls)
        from Cons.IH [OF c2] c2 m Inr Some body st2 show ?thesis by auto
      qed
    qed
  qed
qed auto

text \<open>The requests that get past the checks of \<open>StreamLogFilter\<close>, with the candidates they scan.\<close>

definition request_ok :: "fs \<Rightarrow> LogOptions \<Rightarrow> LogFilterSpec \<Rightarrow> Root \<Rightarrow> string list \<Rightarrow> bool" where
  "request_ok F opts spec root cs \<longleftrightarrow>
     \<not> compress spec \<and> base_path opts \<noteq> '''' \<and> MakeRoot F (log_root opts) = Some root \<and>
     (\<exists>base. ResolvePath F root (base_path opts) = Some base \<and>
        EnumerateCandidates base (include_rotations opts) (rotation_scan_depth opts) = Some cs)"

lemma StreamLogFilter_ok:
  assumes "request_ok F opts spec root cs"
    and "FilterLogsToTemp F draws write_ok root opts spec cs (Some empty_metrics) = (Returned status, F1, Some m)"
  shows "StreamLogFilter F draws write_ok opts spec (Some consumer) True s =
    (if \<not> status_ok status then Some (Returned status, cleanup opts m F1, empty_eof, s)
     else (case StreamFilteredFile F1 opts consumer m s of
        (status2, F2, s2) \<Rightarrow>
          if \<not> status_ok status2 then Some (Returned status2, cleanup opts m F2, empty_eof, s2)
          else Some (Returned Status_OK, if cleanup_temp_file opts then fs_remove F2 (m_temp_path m) else F2,
                 \<lparr>total_size = m_total_size m, total_lines = m_total_lines m, temp_file_path = m_temp_path m,
                  eof_source_files = m_source_files m\<rparr>, s2)))"
  using assms by (auto simp: StreamLogFilter_def request_ok_def)

lemma copying_open:
  assumes "temp_ready F draws opts F1 path loc F2" and "copying F2 loc st d" and "may_read F1 loc"
  shows "open_in (cs_fs st) path = Some d"
proof -
  have "same_shape F2 (cs_fs st)" "nodes (cs_fs st) loc = Some (File d)" using assms(2) by (auto simp: copying_def)
  with temp_readyD(6,7) [OF assms(1)] assms(3) show ?thesis
    by (simp add: open_in_def file_status_shape) (simp add: same_shape_def)
qed


text \<open>
  C18. No temporary file stays behind: with cleanup requested, whatever status the call returns,
  whatever the consumer answers and whichever writes fail, every node of the file system is
  afterwards as it was right after the temporary directory was made to exist, provided no symbolic
  link already carries the name drawn for the file.
\<close>

theorem log_filter_cleans_up:
  assumes req: "request_ok F opts spec root cs" and ready: "temp_ready F draws opts F1 path loc F2"
    and clean: "cleanup_temp_file opts" and nolink: "\<And>l t. nodes F1 (l @ [last (names path)]) \<noteq> Some (Symlink t)"
    and run: "StreamLogFilter F draws write_ok opts spec (Some consumer) True s = Some (Returned status, F', eof, s')"
  shows "nodes F' = nodes F1"
proof -
  let ?st0 = "\<lparr>cs_fs = F2, cs_out = loc, cs_metrics = empty_metrics\<lparr>m_temp_path := path\<rparr>, cs_writes = 0\<rparr>"
  obtain res st where st: "copy_files write_ok root spec cs ?st0 = (res, st)" by fastforce
  obtain d where d: "copying F2 loc st d" and tp: "m_temp_path (cs_metrics st) = path"
    using copy_files_copying [OF copying_start [OF ready], of write_ok root spec cs] st by auto
  note t = temp_readyD [OF ready]
  have plain: "plain_path F1 path" using t nolink by (auto simp: plain_path_def)
  have G: "cwd (cs_fs st) = cwd F1" "nodes (cs_fs st) = (nodes F1)(loc := Some (File d))"
    using d by (auto simp: copying_def same_shape_def t(6))
  note rm = fs_remove_created [OF plain t(5) G, of d, simplified]
  have idem: "nodes F1 = (nodes F1)(loc := None)" using t(8) by auto
  have rm2: "nodes (fs_remove (fs_remove (cs_fs st) path) path) = nodes F1"
    using fs_remove_created(1) [OF plain t(5), of "fs_remove (cs_fs st) path" None] rm idem by simp
  note F = FilterLogsToTemp_ready [OF ready st, where m = empty_metrics]
  show ?thesis
  proof (cases res)
    case (Thrown what)
    have "StreamLogFilter F draws write_ok opts spec (Some consumer) True s =
        Some (Thrown what, cs_fs st, empty_eof, s)"
      using req F Thrown by (auto simp: StreamLogFilter_def request_ok_def)
    with run show ?thesis by simp
  next
    case (Returned status1)
    obtain status2 s2 where s2: "StreamFile (cs_fs st) path (chunk_size opts) None
        (\<lambda>off d. consumer \<lparr>chunk_offset = off, chunk_data = d\<rparr>) s = (status2, s2)" by fastforce
    show ?thesis
      using run StreamLogFilter_ok [OF req F [unfolded Returned], of consumer s] rm rm2 clean tp t(2) s2
      by (auto simp: StreamFilteredFile_def cleanup_def split: if_splits)
  qed
qed

section \<open>A concrete request\<close>

definition demo_opts :: LogOptions where
  "demo_opts = default_LogOptions\<lparr>log_root := ''/var/log'', temp_dir := ''/tmp'', base_path := ''a'',
     include_rotations := False\<rparr>"

definition demo_filter :: LogFilterSpec where
  "demo_filter = \<lparr>start_time = None, end_time = None, level_in = [], grep_contains = '''', compress = False,
     lf_max_output_bytes = 0\<rparr>"

definition demo_temp :: string where
  "demo_temp = ''logfilter-0000000000000000''"

definition demo_fs2 :: fs where
  "demo_fs2 = demo_fs\<lparr>nodes := (nodes demo_fs)([''tmp'', demo_temp] \<mapsto> File [])\<rparr>"

lemma demo_request: "request_ok demo_fs demo_opts demo_filter demo_root [''/var/log/a'']"
proof -
  have p: "to_path [''var'', ''log''] = ''/var/log''" "to_path [''var'', ''log'', ''a''] = ''/var/log/a''"
    by (simp_all add: to_path_def slash_def)
  have w: "weakly_canonical demo_fs ''/var/log'' = Inr ''/var/log''" "weakly_canonical demo_fs ''/var/log/a'' = Inr ''/var/log/a''"
    using demo_status(1,2) [THEN weakly_canonical_existing] by (simp_all add: p)
  have "path_append ''/var/log'' ''a'' = ''/var/log/a''" by (simp add: path_append_def is_absolute_def slash_def)
  then show ?thesis
    by (simp add: request_ok_def demo_opts_def demo_filter_def MakeRoot_def w demo_root_def ResolvePath_def Let_def
          is_absolute_def inside_root_def fs_relative_def demo_relative EnumerateCandidates_def slash_def)
qed

lemma demo_ready:
  "temp_ready demo_fs (\<lambda>k. 0) demo_opts demo_fs (''/tmp/'' @ demo_temp) [''tmp'', demo_temp] demo_fs2"
proof -
  have "ResolveDirectory demo_fs ''/tmp'' = (Inr ''/tmp'', demo_fs)"
    by (simp add: ResolveDirectory_def create_directories_def is_absolute_def steps_def names_def trailing_slash_def slash_def
          demo_fs_def)
  moreover have st: "file_status demo_fs (''/tmp/'' @ demo_temp) = Missing [''tmp'', demo_temp]"
    by (simp add: fs_eval demo_temp_def)
  then have ex: "fs_exists demo_fs (''/tmp/'' @ demo_temp) = Inr False" by (simp add: fs_exists_def)
  have "CreateUniquePath demo_fs (\<lambda>k. 0) ''/tmp'' (''logfilter-'') '''' = Inr (''/tmp/'' @ demo_temp)"
    using ex unique_loop.simps(2) [of demo_fs "\<lambda>k. 0" 0 999 "''/tmp''" "''logfilter-''" "''''"]
    by (simp add: CreateUniquePath_def GenerateSuffix_def hex16_0 path_append_def is_absolute_def slash_def demo_temp_def)
  moreover have "open_out demo_fs (''/tmp/'' @ demo_temp) = Some ([''tmp'', demo_temp], demo_fs2)"
    unfolding open_out_def st walk_result.case demo_fs2_def by (simp add: demo_fs_def empty_fs_def)
  ultimately show ?thesis
    by (simp add: temp_ready_def demo_opts_def temp_basename_def default_LogOptions_def)
qed

lemma demo_status2:
  "file_status demo_fs2 ''/var/log'' = Found [''var'', ''log'']"
  "file_status demo_fs2 ''/var/log/a'' = Found [''var'', ''log'', ''a'']"
  by (simp_all add: fs_eval demo_fs2_def)

lemma demo_source2: "candidate_source demo_fs2 demo_root ''/var/log/a'' = Inr (Some ''/var/log/a'')"
proof -
  have p: "to_path [''var'', ''log''] = ''/var/log''" "to_path [''var'', ''log'', ''a''] = ''/var/log/a''"
    by (simp_all add: to_path_def slash_def)
  have w: "weakly_canonical demo_fs2 ''/var/log'' = Inr ''/var/log''" "weakly_canonical demo_fs2 ''/var/log/a'' = Inr ''/var/log/a''"
    using demo_status2 [THEN weakly_canonical_existing] by (simp_all add: p)
  show ?thesis
    by (simp add: candidate_source_def w fs_exists_def demo_status2 inside_root_def fs_relative_def demo_root_def demo_relative)
qed


theorem log_filter_cleans_up_witness:
  "\<exists>status F' eof s'. StreamLogFilter demo_fs (\<lambda>k. 0) (\<lambda>k. False) demo_opts demo_filter
       (Some (\<lambda>ch s. (Status_OK, s @ chunk_data ch))) True [] = Some (Returned status, F', eof, s') \<and> nodes F' = nodes demo_fs"
proof -
  let ?run = "StreamLogFilter demo_fs (\<lambda>k. 0) (\<lambda>k. False) demo_opts demo_filter (Some (\<lambda>ch s. (Status_OK, s @ chunk_data ch))) True []"
  let ?st0 = "\<lparr>cs_fs = demo_fs2, cs_out = [''tmp'', demo_temp],
    cs_metrics = empty_metrics\<lparr>m_temp_path := ''/tmp/'' @ demo_temp\<rparr>, cs_writes = 0\<rparr>"
  obtain body where body: "open_in demo_fs2 ''/var/log/a'' = Some body"
    by (simp add: open_in_def demo_status2) (simp add: demo_fs2_def demo_fs_def empty_fs_def)
  obtain status2 st where "copy_lines (\<lambda>k. False) demo_filter (getlines body)
      (?st0\<lparr>cs_metrics := (cs_metrics ?st0)\<lparr>m_source_files := m_source_files (cs_metrics ?st0) @ [''/var/log/a'']\<rparr>\<rparr>) =
      (status2, st)" by fastforce
  then have "copy_files (\<lambda>k. False) demo_root demo_filter [''/var/log/a''] ?st0 =
      (Returned (if status_ok status2 then Status_OK else status2), st)"
    by (simp add: demo_source2 body)
  note F = FilterLogsToTemp_ready [OF demo_ready this, where m = empty_metrics]
  have "\<exists>status F' eof s'. ?run = Some (Returned status, F', eof, s')"
    unfolding StreamLogFilter_ok [OF demo_request F] by (auto split: prod.splits)
  then obtain status F' eof s' where r: "?run = Some (Returned status, F', eof, s')" by blast
  have "nodes F' = nodes demo_fs"
    by (rule log_filter_cleans_up [OF demo_request demo_ready _ _ r])
       (auto simp: demo_opts_def default_LogOptions_def demo_fs_def demo_temp_def names_def slash_def)
  with r show ?thesis by blast
qed

end
